theory Spec2Isabelle
  imports Complex_Main
begin

section \<open>The HMM smoothing filter of regionClassifier.py\<close>

text \<open>
  The embedding follows \<^verbatim>\<open>src/regionClassifier.py\<close>: the class \<^verbatim>\<open>geneticMap\<close> with its
  method \<^verbatim>\<open>pos2gm\<close>, and \<^verbatim>\<open>hmmFilter.__call__\<close>.

  Conventions of the embedding.
  \<^item> numpy's float64 values are idealised as \<^typ>\<open>real\<close>: rounding, overflow and NaN are
    outside that model, and a statement about it is one of exact real arithmetic. Where a
    property depends on rounding, the operations concerned are given a second time with IEEE
    rounding written out (the definitions whose names end in \<open>64\<close>).
  \<^item> A Python exception is a value \<open>Inl e\<close> of the result type \<open>py_error + 'a\<close>.
  \<^item> The array \<^verbatim>\<open>self.m\<close> (one row per line of the genetic-map file, column 0 the physical
    position, column 1 the genetic position) is a list of pairs.
\<close>

datatype py_error = IndexError | ValueError | ZeroDivisionError

text \<open>Python's exception hierarchy: \<^verbatim>\<open>IndexError\<close> derives from \<^verbatim>\<open>LookupError\<close>;
  \<^verbatim>\<open>ValueError\<close> and \<^verbatim>\<open>ZeroDivisionError\<close> do not.\<close>

fun is_LookupError :: "py_error \<Rightarrow> bool" where
  "is_LookupError IndexError = True"
| "is_LookupError ValueError = False"
| "is_LookupError ZeroDivisionError = False"

type_synonym gm_table = "(real \<times> real) list"
type_synonym matrix = "real list list"

subsection \<open>geneticMap.pos2gm\<close>

text \<open>
  \<^verbatim>\<open>m[:,0].searchsorted(pos)\<close> with the default \<^verbatim>\<open>side='left'\<close> is numpy's binary search
  \<^verbatim>\<open>
  imin = 0; imax = len(arr)
  while imin < imax:
      imid = imin + ((imax - imin) >> 1)
      if arr[imid] < key: imin = imid + 1
      else:               imax = imid
  return imin
  \<close>
  It is modelled as the loop itself, so that its result is also defined on a column that is
  not sorted.
\<close>

function binsearch_left :: "real list \<Rightarrow> real \<Rightarrow> nat \<Rightarrow> nat \<Rightarrow> nat" where
  "binsearch_left arr key imin imax =
     (if imin < imax then
        (let imid = imin + (imax - imin) div 2
         in if arr ! imid < key then binsearch_left arr key (imid + 1) imax
            else binsearch_left arr key imin imid)
      else imin)"
  by pat_completeness auto
termination
  by (relation "measure (\<lambda>(arr, key, imin, imax). imax - imin)") auto

declare binsearch_left.simps [simp del]

definition searchsorted :: "real list \<Rightarrow> real \<Rightarrow> nat" where
  "searchsorted arr key = binsearch_left arr key 0 (length arr)"

text \<open>The branches of \<^verbatim>\<open>pos2gm\<close> that return a value, in the order of the source.\<close>

datatype pos2gm_branch =
    FirstBranch      \<comment> \<open>\<^verbatim>\<open>if m[i,0]==pos or i==0: return m[i,1]\<close>\<close>
  | ElifBranch       \<comment> \<open>\<^verbatim>\<open>elif i==0: return m[0,1]\<close>\<close>
  | ElseBranch       \<comment> \<open>\<^verbatim>\<open>else: return (linear interpolation)\<close>\<close>
  | ExceptBranch     \<comment> \<open>\<^verbatim>\<open>except IndexError: if i==len(m): return m[-1,1]\<close>\<close>

text \<open>
  The body of the \<^verbatim>\<open>try\<close> block. The first array read is \<^verbatim>\<open>m[i,0]\<close>; the index \<open>i\<close> is never
  negative, so the read raises \<^verbatim>\<open>IndexError\<close> exactly when \<open>i \<ge> len(m)\<close>. In the third branch
  \<open>i \<noteq> 0\<close>, so \<open>i - 1\<close> is an index in range as well. The division is one of float64 values and
  raises nothing.
\<close>

definition pos2gm_try :: "gm_table \<Rightarrow> real \<Rightarrow> nat \<Rightarrow> py_error + (pos2gm_branch \<times> real)" where
  "pos2gm_try m pos i =
     (if \<not> i < length m then Inl IndexError
      else if fst (m ! i) = pos \<or> i = 0 then Inr (FirstBranch, snd (m ! i))
      else if i = 0 then Inr (ElifBranch, snd (m ! 0))
      else Inr (ElseBranch,
             (snd (m ! i) - snd (m ! (i - 1))) / (fst (m ! i) - fst (m ! (i - 1)))
               * (pos - fst (m ! (i - 1))) + snd (m ! (i - 1))))"

text \<open>
  The whole method, with the branch that produced the value. For a file without data lines
  \<^verbatim>\<open>self.m\<close> is \<^verbatim>\<open>np.asarray([], np.float)\<close>, an array of shape \<open>(0,)\<close>, and \<^verbatim>\<open>m[:,0]\<close> raises
  \<^verbatim>\<open>IndexError\<close> before the \<^verbatim>\<open>try\<close> block is entered. In the handler \<^verbatim>\<open>m[-1,1]\<close> is the last
  row's genetic position.
\<close>

definition pos2gm_path :: "gm_table \<Rightarrow> real \<Rightarrow> py_error + (pos2gm_branch \<times> real)" where
  "pos2gm_path m pos =
     (if m = [] then Inl IndexError
      else
        (let i = searchsorted (map fst m) pos
         in case pos2gm_try m pos i of
              Inr r \<Rightarrow> Inr r
            | Inl IndexError \<Rightarrow>
                (if i = length m then Inr (ExceptBranch, snd (last m)) else Inl IndexError)
            | Inl e \<Rightarrow> Inl e))"

definition pos2gm :: "gm_table \<Rightarrow> real \<Rightarrow> py_error + real" where
  "pos2gm m pos = map_sum id snd (pos2gm_path m pos)"

subsection \<open>hmmFilter.__call__: windowing and the transition and emission models\<close>

text \<open>
  Python 2's \<^verbatim>\<open>map(f, xs)\<close> builds the list of results from left to right; the first call that
  raises aborts it.
\<close>

fun mapE :: "('a \<Rightarrow> py_error + 'b) \<Rightarrow> 'a list \<Rightarrow> py_error + 'b list" where
  "mapE f [] = Inr []"
| "mapE f (x # xs) =
     (case f x of
        Inl e \<Rightarrow> Inl e
      | Inr y \<Rightarrow> (case mapE f xs of Inl e \<Rightarrow> Inl e | Inr ys \<Rightarrow> Inr (y # ys)))"

text \<open>
  \<^verbatim>\<open>win_size=int(np.ceil(len(mapLocations)/float(admixedClass.shape[0])))\<close>, where \<open>N\<close> is
  \<^verbatim>\<open>len(mapLocations)\<close> and \<open>W\<close> is \<^verbatim>\<open>admixedClass.shape[0]\<close>. Dividing by the Python float
  \<open>0.0\<close> raises \<^verbatim>\<open>ZeroDivisionError\<close>.
\<close>

definition win_size_of :: "nat \<Rightarrow> nat \<Rightarrow> py_error + nat" where
  "win_size_of N W =
     (if W = 0 then Inl ZeroDivisionError else Inr (nat \<lceil>real N / real W\<rceil>))"

text \<open>\<^verbatim>\<open>range(start, stop, step)\<close> for a positive step; the caller raises \<^verbatim>\<open>ValueError\<close> when the
  step is zero, as \<^verbatim>\<open>range\<close> does.\<close>

function py_range :: "nat \<Rightarrow> nat \<Rightarrow> nat \<Rightarrow> nat list" where
  "py_range start stop step =
     (if step = 0 \<or> stop \<le> start then [] else start # py_range (start + step) stop step)"
  by pat_completeness auto
termination
  by (relation "measure (\<lambda>(start, stop, step). stop - start)") auto

declare py_range.simps [simp del]

text \<open>\<^verbatim>\<open>np.mean\<close> of a list of floats. Inside the loop the slice is never empty.\<close>

definition np_mean :: "real list \<Rightarrow> real" where
  "np_mean xs = sum_list xs / real (length xs)"

text \<open>
  The body shared by the two matrix-building loops (lines 144 to 147 with \<open>d = e\<close>, lines 152 to
  155 with \<open>d = s\<close>): \<^verbatim>\<open>x=np.empty((nClasses, nClasses))\<close>, then for every \<open>j\<close> in
  \<^verbatim>\<open>range(nClasses)\<close> the row \<open>j\<close> is filled with \<^verbatim>\<open>(1.-d)/(nClasses-1)\<close> and its entry \<open>j\<close> is
  overwritten with \<open>d\<close>. \<^verbatim>\<open>nClasses-1\<close> is integer arithmetic. For \<open>nClasses = 1\<close> the float64
  division by zero raises nothing, and the only entry of the row is then overwritten with \<open>d\<close>.
  \<open>nClasses\<close> is a natural number here: \<^verbatim>\<open>np.empty\<close> refuses a negative dimension.
  \<^verbatim>\<open>successRate\<close> is a numpy array, as in the self-test of the module, so that \<open>s\<close> is a float64
  as \<open>e\<close> is; with a Python list of floats and \<open>nClasses = 1\<close> the division would raise
  \<^verbatim>\<open>ZeroDivisionError\<close> instead.
\<close>

definition class_matrix :: "nat \<Rightarrow> real \<Rightarrow> matrix" where
  "class_matrix nClasses d =
     map (\<lambda>j. (replicate nClasses ((1 - d) / real_of_int (int nClasses - 1)))[j := d])
       [0..<nClasses]"

text \<open>
  The loop of lines 139 to 148 over the start indices \<^verbatim>\<open>range(0,len(mapLocations), win_size)\<close>,
  with the loop variable \<^verbatim>\<open>oldPos\<close> as an argument; the result is the list \<open>a\<close>.
  \<^verbatim>\<open>mapLocations[i:i+win_size]\<close> is \<open>take win_size (drop i mapLocations)\<close>.
\<close>

fun transition_loop :: "real \<Rightarrow> nat \<Rightarrow> real list \<Rightarrow> nat \<Rightarrow> real \<Rightarrow> nat list \<Rightarrow> matrix list" where
  "transition_loop nGens nClasses mapLocations win_size oldPos [] = []"
| "transition_loop nGens nClasses mapLocations win_size oldPos (i # is) =
     (let newPos = np_mean (take win_size (drop i mapLocations));
          dM = - (newPos - oldPos) / 100 * nGens;
          e = exp dM
      in class_matrix nClasses e
           # transition_loop nGens nClasses mapLocations win_size newPos is)"

definition transition_matrices :: "real \<Rightarrow> nat \<Rightarrow> real list \<Rightarrow> nat \<Rightarrow> matrix list" where
  "transition_matrices nGens nClasses mapLocations win_size =
     transition_loop nGens nClasses mapLocations win_size 0
       (py_range 0 (length mapLocations) win_size)"

text \<open>The values \<^verbatim>\<open>newPos\<close> takes in that loop, in order: one representative genetic position
  per bin.\<close>

definition window_positions :: "real list \<Rightarrow> nat \<Rightarrow> real list" where
  "window_positions mapLocations win_size =
     map (\<lambda>i. np_mean (take win_size (drop i mapLocations)))
       (py_range 0 (length mapLocations) win_size)"

text \<open>The loop of lines 151 to 156: one matrix per element of \<^verbatim>\<open>successRate\<close>; the result is
  the list \<open>b\<close>.\<close>

definition emission_matrices :: "nat \<Rightarrow> real list \<Rightarrow> matrix list" where
  "emission_matrices nClasses successRate = map (class_matrix nClasses) successRate"

text \<open>
  Lines 134 to 157: the two arguments \<open>(a, b)\<close> of \<^verbatim>\<open>hmm(a, b)\<close>. \<open>W\<close> is
  \<^verbatim>\<open>admixedClass.shape[0]\<close>. \<^verbatim>\<open>range\<close> raises \<^verbatim>\<open>ValueError\<close> for a zero step.
\<close>

definition hmmFilter_models ::
  "gm_table \<Rightarrow> real \<Rightarrow> nat \<Rightarrow> real list \<Rightarrow> real list \<Rightarrow> nat
     \<Rightarrow> py_error + (matrix list \<times> matrix list)" where
  "hmmFilter_models gm nGens nClasses snpLocations successRate W =
     (case mapE (pos2gm gm) snpLocations of
        Inl e \<Rightarrow> Inl e
      | Inr mapLocations \<Rightarrow>
          (case win_size_of (length mapLocations) W of
             Inl e \<Rightarrow> Inl e
           | Inr win_size \<Rightarrow>
               if win_size = 0 then Inl ValueError
               else Inr (transition_matrices nGens nClasses mapLocations win_size,
                         emission_matrices nClasses successRate)))"

subsection \<open>hmmFilter.__call__: the calls read off the posterior table\<close>

text \<open>
  \<^verbatim>\<open>model.pstate.argsort(1)\<close> sorts, in every row, the column indices by their value, in
  ascending order, with numpy's default sort. That sort is not stable in general: it is a
  quicksort that partitions a run of more than 16 elements and sorts a run of at most 16
  elements by insertion, which keeps equal values in their original order. A row of at most 16
  states is therefore sorted by insertion alone, and the model is the stable insertion sort
  there; what the sort does on a longer row is the parameter \<open>introsort\<close>.
\<close>

definition insertion_argsort :: "real list \<Rightarrow> nat list" where
  "insertion_argsort row = sort_key (\<lambda>i. row ! i) [0..<length row]"

definition argsort :: "(real list \<Rightarrow> nat list) \<Rightarrow> real list \<Rightarrow> nat list" where
  "argsort introsort row =
     (if length row \<le> 16 then insertion_argsort row else introsort row)"

text \<open>What is known of the sort on longer rows: it returns the indices of the row, each once,
  in an order in which the values do not decrease.\<close>

definition is_argsort :: "(real list \<Rightarrow> nat list) \<Rightarrow> bool" where
  "is_argsort introsort =
     (\<forall>row. length (introsort row) = length row
           \<and> set (introsort row) = {0..<length row}
           \<and> sorted (map (\<lambda>i. row ! i) (introsort row)))"

text \<open>\<^verbatim>\<open>[:,-1]\<close> takes the last column of the sorted indices; on a table without columns it
  raises \<^verbatim>\<open>IndexError\<close>.\<close>

definition maxIdx_row :: "(real list \<Rightarrow> nat list) \<Rightarrow> real list \<Rightarrow> py_error + nat" where
  "maxIdx_row introsort row =
     (if row = [] then Inl IndexError else Inr (last (argsort introsort row)))"

definition maxIdx_of :: "(real list \<Rightarrow> nat list) \<Rightarrow> matrix \<Rightarrow> py_error + nat list" where
  "maxIdx_of introsort pstate = mapE (maxIdx_row introsort) pstate"

text \<open>
  Lines 158 to 166: the model is built once, then the loop runs over the samples (the columns
  of \<^verbatim>\<open>admixedClass\<close>, a list of rows here). The module \<^verbatim>\<open>hmm\<close> is not part of these sources, so
  its two entry points are parameters: \<open>hmm a b\<close> stands for the constructor \<^verbatim>\<open>hmm(a, b)\<close>, and
  \<open>forward_backward model obs\<close> for the call \<^verbatim>\<open>model.forward_backward(obs)\<close> followed by the read
  of \<^verbatim>\<open>model.pstate\<close>; either returns its result or the exception raised there.
  \<^verbatim>\<open>np.array(results).T\<close> is the transpose.
\<close>

definition smooth_samples ::
  "(matrix list \<Rightarrow> matrix list \<Rightarrow> py_error + 'h) \<Rightarrow> ('h \<Rightarrow> nat list \<Rightarrow> py_error + matrix)
     \<Rightarrow> (real list \<Rightarrow> nat list)
     \<Rightarrow> matrix list \<Rightarrow> matrix list \<Rightarrow> nat list list \<Rightarrow> py_error + nat list list" where
  "smooth_samples hmm forward_backward introsort a b admixedClass =
     (case hmm a b of
        Inl e \<Rightarrow> Inl e
      | Inr model \<Rightarrow>
          (case mapE (\<lambda>i. case forward_backward model (map (\<lambda>row. row ! i) admixedClass) of
                             Inl e \<Rightarrow> Inl e
                           | Inr pstate \<Rightarrow> maxIdx_of introsort pstate)
                  [0..<length (hd admixedClass)] of
             Inl e \<Rightarrow> Inl e
           | Inr results \<Rightarrow> Inr (transpose results)))"

definition hmmFilter_call ::
  "(matrix list \<Rightarrow> matrix list \<Rightarrow> py_error + 'h) \<Rightarrow> ('h \<Rightarrow> nat list \<Rightarrow> py_error + matrix)
     \<Rightarrow> (real list \<Rightarrow> nat list)
     \<Rightarrow> gm_table \<Rightarrow> real \<Rightarrow> nat \<Rightarrow> real list \<Rightarrow> real list \<Rightarrow> nat list list
     \<Rightarrow> py_error + nat list list" where
  "hmmFilter_call hmm forward_backward introsort gm nGens nClasses snpLocations successRate
       admixedClass =
     (case hmmFilter_models gm nGens nClasses snpLocations successRate (length admixedClass) of
        Inl e \<Rightarrow> Inl e
      | Inr (a, b) \<Rightarrow> smooth_samples hmm forward_backward introsort a b admixedClass)"

subsection \<open>The retention probability and the matrix rows under float64 rounding\<close>

text \<open>
  IEEE 754 binary64 rounding of a real number, to nearest with ties to even. \<open>rne\<close> rounds to the
  nearest integer, ties to the even one. \<open>binade x\<close> is the exponent of \<open>x\<close>, not below that of the
  smallest normal number, so that the spacing \<open>ulp64 x\<close> of the doubles around \<open>x\<close> is \<open>2\<^sup>-\<^sup>1\<^sup>0\<^sup>7\<^sup>4\<close>
  in the subnormal range (gradual underflow, down to 0). Overflow to infinity is not
  represented: the model is that of results below the largest double.
\<close>

definition rne :: "real \<Rightarrow> int" where
  "rne t =
     (let f = \<lfloor>t\<rfloor>; r = t - real_of_int f
      in if r < 1 / 2 then f
         else if 1 / 2 < r then f + 1
         else if even f then f else f + 1)"

definition binade :: "real \<Rightarrow> int" where
  "binade x = max \<lfloor>log 2 \<bar>x\<bar>\<rfloor> (- 1022)"

definition ulp64 :: "real \<Rightarrow> real" where
  "ulp64 x = 2 powr (real_of_int (binade x) - 52)"

definition fl64 :: "real \<Rightarrow> real" where
  "fl64 x = (if x = 0 then 0 else real_of_int (rne (x / ulp64 x)) * ulp64 x)"

text \<open>\<^verbatim>\<open>np.exp\<close> on a float64, taken as the exponential rounded once.\<close>

definition np_exp64 :: "real \<Rightarrow> real" where
  "np_exp64 x = fl64 (exp x)"

text \<open>
  Lines 141 and 142 with every operation rounded: \<^verbatim>\<open>dM=-(newPos - oldPos)/100*self.nGens\<close> is a
  subtraction, a negation (exact), a division and a multiplication, and \<^verbatim>\<open>e=np.exp(dM)\<close>.
\<close>

definition retention64 :: "real \<Rightarrow> real \<Rightarrow> real \<Rightarrow> real" where
  "retention64 newPos oldPos nGens =
     np_exp64 (fl64 (fl64 (- fl64 (newPos - oldPos) / 100) * nGens))"

text \<open>
  The matrix-building loops with every operation rounded: each row is filled with
  \<^verbatim>\<open>(1.-d)/(nClasses-1)\<close>, a subtraction and a division by the integer \<open>nClasses - 1\<close> (converted
  exactly when \<open>nClasses \<le> 2\<^sup>5\<^sup>3\<close>), and the diagonal entry is the float64 \<open>d\<close> itself.
\<close>

definition class_matrix64 :: "nat \<Rightarrow> real \<Rightarrow> matrix" where
  "class_matrix64 nClasses d =
     map (\<lambda>j. (replicate nClasses (fl64 (fl64 (1 - d) / real_of_int (int nClasses - 1))))[j := d])
       [0..<nClasses]"

section \<open>Properties of pos2gm\<close>

subsection \<open>The binary search\<close>

lemma binsearch_left_bounds:
  "imin \<le> imax \<Longrightarrow> imin \<le> binsearch_left arr key imin imax \<and> binsearch_left arr key imin imax \<le> imax"
proof (induction arr key imin imax rule: binsearch_left.induct)
  case (1 arr key imin imax)
  show ?case
  proof (cases "imin < imax")
    case False
    with "1.prems" show ?thesis by (simp add: binsearch_left.simps)
  next
    case True
    define imid where "imid = imin + (imax - imin) div 2"
    have mid: "imin \<le> imid" "imid < imax" using True by (auto simp: imid_def)
    show ?thesis
    proof (cases "arr ! imid < key")
      case lt: True
      have "imid + 1 \<le> imax" using mid by simp
      from "1.IH"(1)[OF True imid_def lt this] True lt mid show ?thesis
        by (subst (1 2) binsearch_left.simps) (simp add: imid_def Let_def)
    next
      case ge: False
      from "1.IH"(2)[OF True imid_def ge mid(1)] True ge mid show ?thesis
        by (subst (1 2) binsearch_left.simps) (simp add: imid_def Let_def)
    qed
  qed
qed

lemma binsearch_left_split:
  assumes "imin \<le> imax" "imax \<le> length arr"
    and "\<forall>k<imin. arr ! k < key"
    and "\<forall>k. imax \<le> k \<and> k < length arr \<longrightarrow> key \<le> arr ! k"
    and "sorted arr"
  shows "(\<forall>k<binsearch_left arr key imin imax. arr ! k < key) \<and>
         (\<forall>k. binsearch_left arr key imin imax \<le> k \<and> k < length arr \<longrightarrow> key \<le> arr ! k)"
  using assms
proof (induction arr key imin imax rule: binsearch_left.induct)
  case (1 arr key imin imax)
  show ?case
  proof (cases "imin < imax")
    case False
    with "1.prems" show ?thesis by (simp add: binsearch_left.simps)
  next
    case True
    define imid where "imid = imin + (imax - imin) div 2"
    have mid: "imin \<le> imid" "imid < imax" using True by (auto simp: imid_def)
    show ?thesis
    proof (cases "arr ! imid < key")
      case lt: True
      have a: "imid + 1 \<le> imax" using mid by simp
      have b: "\<forall>k<imid + 1. arr ! k < key"
      proof (intro allI impI)
        fix k assume "k < imid + 1"
        then have "k \<le> imid" by simp
        moreover have "imid < length arr" using mid "1.prems"(2) by simp
        ultimately have "arr ! k \<le> arr ! imid" using \<open>sorted arr\<close> by (simp add: sorted_nth_mono)
        with lt show "arr ! k < key" by simp
      qed
      have eq: "binsearch_left arr key imin imax = binsearch_left arr key (imid + 1) imax"
        using True lt by (subst binsearch_left.simps) (simp add: imid_def Let_def)
      from "1.IH"(1)[OF True imid_def lt a "1.prems"(2) b "1.prems"(4) "1.prems"(5)]
      show ?thesis unfolding eq .
    next
      case ge: False
      have b: "\<forall>k. imid \<le> k \<and> k < length arr \<longrightarrow> key \<le> arr ! k"
      proof (intro allI impI)
        fix k assume "imid \<le> k \<and> k < length arr"
        then have "arr ! imid \<le> arr ! k" using \<open>sorted arr\<close> by (simp add: sorted_nth_mono)
        with ge show "key \<le> arr ! k" by simp
      qed
      have c: "imid \<le> length arr" using mid "1.prems"(2) by simp
      have eq: "binsearch_left arr key imin imax = binsearch_left arr key imin imid"
        using True ge by (subst binsearch_left.simps) (simp add: imid_def Let_def)
      from "1.IH"(2)[OF True imid_def ge mid(1) c "1.prems"(3) b "1.prems"(5)]
      show ?thesis unfolding eq .
    qed
  qed
qed

lemma searchsorted_le_length: "searchsorted arr key \<le> length arr"
  using binsearch_left_bounds[of 0 "length arr" arr key] by (simp add: searchsorted_def)

lemma searchsorted_sorted:
  assumes "sorted arr"
  shows "(\<forall>k<searchsorted arr key. arr ! k < key) \<and>
         (\<forall>k. searchsorted arr key \<le> k \<and> k < length arr \<longrightarrow> key \<le> arr ! k)"
  unfolding searchsorted_def
  using binsearch_left_split[of 0 "length arr" arr key] assms by simp

lemma searchsorted_unique:
  assumes "sorted arr" "i \<le> length arr"
    and lo: "\<forall>k<i. arr ! k < key"
    and hi: "\<forall>k. i \<le> k \<and> k < length arr \<longrightarrow> key \<le> arr ! k"
  shows "searchsorted arr key = i"
proof -
  let ?r = "searchsorted arr key"
  have r: "?r \<le> length arr" by (rule searchsorted_le_length)
  have rlo: "\<forall>k< ?r. arr ! k < key" and rhi: "\<forall>k. ?r \<le> k \<and> k < length arr \<longrightarrow> key \<le> arr ! k"
    using searchsorted_sorted[OF assms(1), of key] by blast+
  have "\<not> ?r < i"
  proof
    assume "?r < i"
    then have "arr ! ?r < key" "key \<le> arr ! ?r" using lo rhi assms(2) by auto
    then show False by simp
  qed
  moreover have "\<not> i < ?r"
  proof
    assume "i < ?r"
    then have "arr ! i < key" "key \<le> arr ! i" using rlo hi r by auto
    then show False by simp
  qed
  ultimately show ?thesis by simp
qed

lemma strict_sorted_nth_less:
  "sorted_wrt (<) (xs::real list) \<Longrightarrow> i < j \<Longrightarrow> j < length xs \<Longrightarrow> xs ! i < xs ! j"
  by (simp add: sorted_wrt_nth_less)

lemma strict_sorted_imp_sorted: "sorted_wrt (<) (xs::real list) \<Longrightarrow> sorted xs"
  by (rule sorted_wrt_mono_rel[where P="(<)"]) auto

lemma searchsorted_exact:
  assumes "sorted_wrt (<) arr" "k < length arr"
  shows "searchsorted arr (arr ! k) = k"
proof (rule searchsorted_unique)
  show "sorted arr" using assms(1) by (rule strict_sorted_imp_sorted)
  show "k \<le> length arr" using assms(2) by simp
  show "\<forall>j<k. arr ! j < arr ! k" using assms by (simp add: sorted_wrt_nth_less)
  show "\<forall>j. k \<le> j \<and> j < length arr \<longrightarrow> arr ! k \<le> arr ! j"
    using strict_sorted_imp_sorted[OF assms(1)] by (simp add: sorted_nth_mono)
qed

lemma searchsorted_below:
  assumes "sorted arr" "arr \<noteq> []" "key < arr ! 0"
  shows "searchsorted arr key = 0"
proof (rule searchsorted_unique)
  show "\<forall>j. 0 \<le> j \<and> j < length arr \<longrightarrow> key \<le> arr ! j"
  proof (intro allI impI)
    fix j assume "0 \<le> j \<and> j < length arr"
    then have "arr ! 0 \<le> arr ! j" using assms(1) by (simp add: sorted_nth_mono)
    with assms(3) show "key \<le> arr ! j" by simp
  qed
qed (use assms in simp_all)

lemma searchsorted_above:
  assumes "sorted arr" "arr \<noteq> []" "arr ! (length arr - 1) < key"
  shows "searchsorted arr key = length arr"
proof (rule searchsorted_unique)
  show "\<forall>j<length arr. arr ! j < key"
  proof (intro allI impI)
    fix j assume "j < length arr"
    then have "arr ! j \<le> arr ! (length arr - 1)" using assms(1,2) by (simp add: sorted_nth_mono)
    with assms(3) show "arr ! j < key" by simp
  qed
qed (use assms in simp_all)

lemma searchsorted_between:
  assumes "sorted arr" "Suc k < length arr" "arr ! k < key" "key < arr ! Suc k"
  shows "searchsorted arr key = Suc k"
proof (rule searchsorted_unique)
  show "\<forall>j<Suc k. arr ! j < key"
  proof (intro allI impI)
    fix j assume "j < Suc k"
    then have "arr ! j \<le> arr ! k" using assms(1,2) by (simp add: sorted_nth_mono)
    with assms(3) show "arr ! j < key" by simp
  qed
  show "\<forall>j. Suc k \<le> j \<and> j < length arr \<longrightarrow> key \<le> arr ! j"
  proof (intro allI impI)
    fix j assume "Suc k \<le> j \<and> j < length arr"
    then have "arr ! Suc k \<le> arr ! j" using assms(1) by (simp add: sorted_nth_mono)
    with assms(4) show "key \<le> arr ! j" by simp
  qed
qed (use assms in simp_all)

lemma pos2gm_exact:
  assumes "sorted_wrt (<) (map fst m)" "k < length m"
  shows "pos2gm m (fst (m ! k)) = Inr (snd (m ! k))"
proof -
  have "searchsorted (map fst m) (fst (m ! k)) = k"
    using searchsorted_exact[OF assms(1), of k] assms(2) by simp
  moreover have "m \<noteq> []" using assms(2) by auto
  ultimately show ?thesis using assms(2)
    by (simp add: pos2gm_def pos2gm_path_def pos2gm_try_def)
qed

lemma pos2gm_below:
  assumes "sorted_wrt (<) (map fst m)" "m \<noteq> []" "pos < fst (hd m)"
  shows "pos2gm m pos = Inr (snd (hd m))"
proof -
  have "searchsorted (map fst m) pos = 0"
    using searchsorted_below[OF strict_sorted_imp_sorted[OF assms(1)], of pos] assms(2,3)
    by (simp add: hd_conv_nth)
  then show ?thesis using assms(2)
    by (simp add: pos2gm_def pos2gm_path_def pos2gm_try_def hd_conv_nth)
qed

lemma pos2gm_above:
  assumes "sorted_wrt (<) (map fst m)" "m \<noteq> []" "fst (last m) < pos"
  shows "pos2gm m pos = Inr (snd (last m))"
proof -
  have "searchsorted (map fst m) pos = length m"
    using searchsorted_above[OF strict_sorted_imp_sorted[OF assms(1)], of pos] assms(2,3)
    by (simp add: last_conv_nth)
  then show ?thesis using assms(2)
    by (simp add: pos2gm_def pos2gm_path_def pos2gm_try_def)
qed

lemma pos2gm_between:
  assumes "sorted_wrt (<) (map fst m)" "Suc k < length m"
    and "fst (m ! k) < pos" "pos < fst (m ! Suc k)"
  shows "pos2gm m pos =
     Inr (snd (m ! k) + (snd (m ! Suc k) - snd (m ! k)) / (fst (m ! Suc k) - fst (m ! k)) * (pos - fst (m ! k)))"
proof -
  have "searchsorted (map fst m) pos = Suc k"
    using searchsorted_between[OF strict_sorted_imp_sorted[OF assms(1)], of k pos] assms(2,3,4)
    by simp
  moreover have "m \<noteq> []" using assms(2) by auto
  ultimately show ?thesis using assms(2,4)
    by (simp add: pos2gm_def pos2gm_path_def pos2gm_try_def)
qed

lemma pos2gm_total:
  assumes "m \<noteq> []"
  shows "\<exists>g. pos2gm m pos = Inr g"
proof -
  have "searchsorted (map fst m) pos \<le> length m"
    using searchsorted_le_length[of "map fst m" pos] by simp
  then show ?thesis using assms
    by (auto simp: pos2gm_def pos2gm_path_def pos2gm_try_def Let_def)
qed

subsection \<open>The lookup\<close>

lemma sorted_hd_Min:
  assumes "sorted (xs::real list)" "xs \<noteq> []"
  shows "hd xs = Min (set xs)"
proof -
  have "\<forall>y\<in>set xs. hd xs \<le> y"
    using assms by (cases xs) auto
  moreover have "hd xs \<in> set xs" using assms(2) by simp
  ultimately show ?thesis by (simp add: Min_eqI[symmetric])
qed

lemma sorted_last_Max:
  assumes "sorted (xs::real list)" "xs \<noteq> []"
  shows "last xs = Max (set xs)"
proof -
  have "\<forall>y\<in>set xs. y \<le> last xs"
  proof
    fix y assume "y \<in> set xs"
    then obtain k where k: "k < length xs" "xs ! k = y" by (auto simp: in_set_conv_nth)
    then have "xs ! k \<le> xs ! (length xs - 1)"
      using sorted_nth_mono[OF assms(1), of k "length xs - 1"] by simp
    with k assms(2) show "y \<le> last xs" by (simp add: last_conv_nth)
  qed
  moreover have "last xs \<in> set xs" using assms(2) by simp
  ultimately show ?thesis by (simp add: Max_eqI[symmetric])
qed

text \<open>
  Claim C5, as amended. On a non-empty table whose physical positions strictly increase,
  \<^verbatim>\<open>pos2gm\<close> returns: the tabulated genetic position when the query equals a tabulated physical
  position; the genetic position of the first row (the row of the smallest physical position)
  when the query is below the table; the genetic position of the last row when the query is
  above the table; and otherwise \<open>g0 + (g1 - g0) / (p1 - p0) * (pos - p0)\<close> for the two
  consecutive rows \<open>(p0, g0)\<close>, \<open>(p1, g1)\<close> with \<open>p0 < pos < p1\<close>. The first and last rows hold
  the smallest and the largest tabulated genetic position when the genetic positions do not
  decrease along the table.
\<close>

theorem pos2gm_lookup:
  assumes "m \<noteq> []" and "sorted_wrt (<) (map fst m)"
  shows "(\<forall>k<length m. pos = fst (m ! k) \<longrightarrow> pos2gm m pos = Inr (snd (m ! k)))
       \<and> (pos < fst (hd m) \<longrightarrow> pos2gm m pos = Inr (snd (hd m)))
       \<and> (fst (last m) < pos \<longrightarrow> pos2gm m pos = Inr (snd (last m)))
       \<and> (\<forall>k. Suc k < length m \<and> fst (m ! k) < pos \<and> pos < fst (m ! Suc k) \<longrightarrow>
             pos2gm m pos =
               Inr (snd (m ! k) + (snd (m ! Suc k) - snd (m ! k)) / (fst (m ! Suc k) - fst (m ! k))
                                    * (pos - fst (m ! k))))
       \<and> (sorted (map snd m) \<longrightarrow>
             snd (hd m) = Min (set (map snd m)) \<and> snd (last m) = Max (set (map snd m)))"
proof (intro conjI allI impI)
  fix k assume "k < length m" "pos = fst (m ! k)"
  then show "pos2gm m pos = Inr (snd (m ! k))"
    using pos2gm_exact[OF assms(2), of k] by simp
next
  assume "pos < fst (hd m)"
  then show "pos2gm m pos = Inr (snd (hd m))" by (rule pos2gm_below[OF assms(2,1)])
next
  assume "fst (last m) < pos"
  then show "pos2gm m pos = Inr (snd (last m))" by (rule pos2gm_above[OF assms(2,1)])
next
  fix k assume "Suc k < length m \<and> fst (m ! k) < pos \<and> pos < fst (m ! Suc k)"
  then show "pos2gm m pos =
     Inr (snd (m ! k) + (snd (m ! Suc k) - snd (m ! k)) / (fst (m ! Suc k) - fst (m ! k))
                          * (pos - fst (m ! k)))"
    using pos2gm_between[OF assms(2), of k pos] by simp
next
  assume "sorted (map snd m)"
  then show "snd (hd m) = Min (set (map snd m))"
    using sorted_hd_Min[of "map snd m"] assms(1) by (simp add: hd_map)
next
  assume "sorted (map snd m)"
  then show "snd (last m) = Max (set (map snd m))"
    using sorted_last_Max[of "map snd m"] assms(1) by (simp add: last_map)
qed

text \<open>
  The theorem at the table \<open>(0, 0), (10, 1), (20, 4)\<close>: an exact match, a query below, a query
  above and an interpolated query.
\<close>

theorem pos2gm_lookup_witness:
  "pos2gm [(0, 0), (10, 1), (20, 4)] 10 = Inr 1
   \<and> pos2gm [(0, 0), (10, 1), (20, 4)] (- 3) = Inr 0
   \<and> pos2gm [(0, 0), (10, 1), (20, 4)] 25 = Inr 4
   \<and> pos2gm [(0, 0), (10, 1), (20, 4)] 15 = Inr (5 / 2)
   \<and> Min (set (map snd [(0, 0), (10, 1), (20, 4 :: real)])) = (0 :: real)"
proof -
  let ?m = "[(0, 0), (10, 1), (20, 4)] :: gm_table"
  have ne: "?m \<noteq> []" by simp
  have inc: "sorted_wrt (<) (map fst ?m)" by simp
  have mono: "sorted (map snd ?m)" by simp
  have a: "pos2gm ?m 10 = Inr 1"
    using pos2gm_lookup[OF ne inc, of 10] by (auto dest: spec[of _ 1])
  have b: "pos2gm ?m (- 3) = Inr 0"
    using pos2gm_lookup[OF ne inc, of "- 3"] by simp
  have c: "pos2gm ?m 25 = Inr 4"
    using pos2gm_lookup[OF ne inc, of 25] by simp
  have d: "pos2gm ?m 15 = Inr (5 / 2)"
    using pos2gm_lookup[OF ne inc, of 15] by (auto dest!: spec[of _ 1])
  have e: "Min (set (map snd ?m)) = 0"
    using pos2gm_lookup[OF ne inc, of 0] mono by simp
  from a b c d e show ?thesis by simp
qed

text \<open>
  Claim C5 as stated fails where the genetic positions decrease: on the table
  \<open>(1, 5), (2, 3)\<close> the query 0 is below the table and the result is 5, the first row's genetic
  position, while the smallest tabulated genetic position is 3; the query 4 above the table
  gives 3, while the largest is 5.
\<close>

theorem pos2gm_smallest_counterexample:
  "sorted_wrt (<) (map fst [(1, 5), (2, 3 :: real)] :: real list)
   \<and> pos2gm [(1, 5), (2, 3)] 0 = Inr 5
   \<and> Min (set (map snd [(1, 5), (2, 3 :: real)] :: real list)) = 3
   \<and> pos2gm [(1, 5), (2, 3)] 4 = Inr 3
   \<and> Max (set (map snd [(1, 5), (2, 3 :: real)] :: real list)) = 5"
  by (simp add: pos2gm_def pos2gm_path_def pos2gm_try_def searchsorted_def binsearch_left.simps)

text \<open>
  Claim C9, as amended. On the empty table \<^verbatim>\<open>pos2gm\<close> raises \<^verbatim>\<open>IndexError\<close>, a \<^verbatim>\<open>LookupError\<close>,
  for every query. On a non-empty table it returns a value for every query, whether or not the
  physical positions strictly increase: nothing in the method examines the order of the table.
\<close>

theorem pos2gm_failure:
  "(m = [] \<longrightarrow> pos2gm m pos = Inl IndexError \<and> is_LookupError IndexError)
   \<and> (m \<noteq> [] \<longrightarrow> (\<exists>g. pos2gm m pos = Inr g))"
  using pos2gm_total[of m pos]
  by (auto simp: pos2gm_def pos2gm_path_def)

text \<open>
  The theorem at the empty table and at a table with a repeated physical position.
\<close>

theorem pos2gm_failure_witness:
  "pos2gm [] 7 = Inl IndexError \<and> (\<exists>g. pos2gm [(5, 1), (5, 2)] 5 = Inr g)"
  using pos2gm_failure[of "[]" 7] pos2gm_failure[of "[(5, 1), (5, 2)]" 5] by simp

text \<open>
  Claim C9 as stated fails on malformed tables: with the physical position 5 tabulated twice the
  query 5 returns 1, and with the positions 10, 5 in decreasing order the query 7 returns 2;
  neither raises.
\<close>

theorem pos2gm_malformed_counterexample:
  "\<not> sorted_wrt (<) (map fst [(5, 1), (5, 2 :: real)] :: real list)
   \<and> pos2gm [(5, 1), (5, 2)] 5 = Inr 1
   \<and> \<not> sorted_wrt (<) (map fst [(10, 1), (5, 2 :: real)] :: real list)
   \<and> pos2gm [(10, 1), (5, 2)] 7 = Inr 2"
  by (simp add: pos2gm_def pos2gm_path_def pos2gm_try_def searchsorted_def binsearch_left.simps)

text \<open>
  Claim C10. The branch \<^verbatim>\<open>elif i==0: return m[0,1]\<close> is never the one that returns: for every
  table, every query and every index \<open>i\<close>, neither the \<^verbatim>\<open>try\<close> block nor the method returns
  through it, because \<open>i = 0\<close> already satisfies the condition \<^verbatim>\<open>m[i,0]==pos or i==0\<close> of the
  first branch.
\<close>

theorem pos2gm_elif_unreachable:
  "pos2gm_try m pos i \<noteq> Inr (ElifBranch, g)
   \<and> pos2gm_path m pos \<noteq> Inr (ElifBranch, g)
   \<and> (m \<noteq> [] \<longrightarrow> pos2gm_try m pos 0 = Inr (FirstBranch, snd (m ! 0)))"
  by (auto simp: pos2gm_path_def pos2gm_try_def Let_def split: sum.splits py_error.splits if_splits)

text \<open>
  The theorem at a query below a two-row table, where the searched index is 0.
\<close>

theorem pos2gm_elif_unreachable_witness:
  "pos2gm_try [(1, 5), (2, 3)] 0 0 = Inr (FirstBranch, 5)
   \<and> pos2gm_path [(1, 5), (2, 3)] 0 \<noteq> Inr (ElifBranch, 5)"
  using pos2gm_elif_unreachable[of "[(1, 5), (2, 3)]" 0 0 5] by simp

section \<open>Properties of the windowing\<close>

subsection \<open>The start indices and the bin size\<close>

lemma py_range_map:
  "0 < step \<Longrightarrow>
   py_range start stop step
     = map (\<lambda>k. start + k * step) [0..<(stop - start + step - 1) div step]"
proof (induction start stop step rule: py_range.induct)
  case (1 start stop step)
  show ?case
  proof (cases "stop \<le> start")
    case True
    then have "(stop - start + step - 1) div step = 0" using "1.prems" by simp
    with True show ?thesis by (simp add: py_range.simps)
  next
    case False
    then have ih: "py_range (start + step) stop step
        = map (\<lambda>k. start + step + k * step) [0..<(stop - (start + step) + step - 1) div step]"
      using "1.IH" "1.prems" by simp
    have cnt: "(stop - start + step - 1) div step
                 = Suc ((stop - (start + step) + step - 1) div step)"
    proof (cases "step \<le> stop - start")
      case True
      then have "stop - start + step - 1 = (stop - (start + step) + step - 1) + step"
        using "1.prems" by simp
      then have "(stop - start + step - 1) div step
                   = ((stop - (start + step) + step - 1) + step) div step"
        by (simp only:)
      also have "\<dots> = (stop - (start + step) + step - 1) div step + 1"
        using "1.prems" by (simp only: div_add_self2)
      finally show ?thesis by simp
    next
      case small: False
      then have a: "stop - (start + step) = 0" by simp
      have "step \<le> stop - start + step - 1" using False by simp
      moreover have "stop - start + step - 1 < 2 * step" using small "1.prems" by simp
      ultimately have "(stop - start + step - 1) div step = 1"
        using "1.prems" by (simp add: div_nat_eqI)
      with a "1.prems" show ?thesis by simp
    qed
    have "py_range start stop step = start # py_range (start + step) stop step"
      using False "1.prems" by (subst py_range.simps) simp
    also have "\<dots> = start # map (\<lambda>k. start + step + k * step)
                              [0..<(stop - (start + step) + step - 1) div step]"
      by (simp only: ih)
    also have "\<dots> = map (\<lambda>k. start + k * step) [0..<(stop - start + step - 1) div step]"
      unfolding cnt by (simp add: map_upt_Suc del: upt_Suc)
    finally show ?thesis .
  qed
qed

lemma py_range_length:
  "0 < step \<Longrightarrow> length (py_range 0 stop step) = (stop + step - 1) div step"
  by (simp add: py_range_map)

lemma py_range_nth:
  "0 < step \<Longrightarrow> k < (stop + step - 1) div step \<Longrightarrow> py_range 0 stop step ! k = k * step"
  by (simp add: py_range_map)

lemma py_range_zero_step: "py_range start stop 0 = []"
  by (simp add: py_range.simps)

lemma bins_concat:
  "0 < w \<Longrightarrow> concat (map (\<lambda>i. take w (drop i xs)) (py_range s (length xs) w)) = drop s xs"
proof (induction s "length xs" w rule: py_range.induct)
  case (1 start step)
  show ?case
  proof (cases "length xs \<le> start")
    case True
    then show ?thesis by (simp add: py_range.simps)
  next
    case False
    have "py_range start (length xs) step = start # py_range (start + step) (length xs) step"
      using False "1.prems" by (subst py_range.simps) simp
    moreover have "concat (map (\<lambda>i. take step (drop i xs)) (py_range (start + step) (length xs) step))
            = drop (start + step) xs"
      using "1.hyps" False "1.prems" by simp
    moreover have "take step (drop start xs) @ drop (start + step) xs = drop start xs"
      by (metis add.commute append_take_drop_id drop_drop)
    ultimately show ?thesis by simp
  qed
qed

lemma ceil_upper:
  fixes N W :: nat
  assumes "0 < W"
  shows "N \<le> W * nat \<lceil>real N / real W\<rceil>"
proof -
  define c where "c = \<lceil>real N / real W\<rceil>"
  have W: "0 < real W" using assms by simp
  have le: "real N / real W \<le> real_of_int c" unfolding c_def by (rule le_of_int_ceiling)
  have "0 \<le> real N / real W" by (rule divide_nonneg_nonneg) simp_all
  from this le have "0 \<le> real_of_int c" by (rule order_trans)
  then have c0: "0 \<le> c" by (simp only: of_int_0_le_iff)
  have "real N \<le> real_of_int c * real W"
    using le W by (simp only: pos_divide_le_eq)
  also have "real_of_int c = real (nat c)" using c0 by (simp only: of_nat_nat)
  also have "real (nat c) * real W = real (W * nat c)"
    by (simp only: of_nat_mult mult.commute)
  finally have "N \<le> W * nat c" by (simp only: of_nat_le_iff)
  then show ?thesis unfolding c_def .
qed

lemma ceil_lower:
  fixes N W :: nat
  assumes "0 < W" "0 < N"
  shows "0 < nat \<lceil>real N / real W\<rceil> \<and> W * (nat \<lceil>real N / real W\<rceil> - 1) < N"
proof -
  define c where "c = \<lceil>real N / real W\<rceil>"
  have W: "0 < real W" using assms by simp
  have "0 < real N / real W" by (rule divide_pos_pos) (use assms in simp_all)
  also have "real N / real W \<le> real_of_int c" unfolding c_def by (rule le_of_int_ceiling)
  finally have "0 < c" by (simp only: of_int_0_less_iff)
  then have b: "0 < nat c" by (simp only: zero_less_nat_eq)
  have c1: "real_of_int c - 1 < real N / real W" unfolding c_def by (rule ceiling_correct[THEN conjunct1])
  have "real_of_int c = real (nat c)" using \<open>0 < c\<close> by (simp only: of_nat_nat less_imp_le)
  moreover have "real (nat c - 1) = real (nat c) - 1" using b by simp
  ultimately have "real (nat c - 1) < real N / real W" using c1 by (simp only:)
  then have "real (nat c - 1) * real W < real N" using W by (simp only: pos_less_divide_eq)
  moreover have "real (nat c - 1) * real W = real (W * (nat c - 1))"
    by (simp only: of_nat_mult mult.commute)
  ultimately have "real (W * (nat c - 1)) < real N" by (simp only:)
  then have "W * (nat c - 1) < N" by (simp only: of_nat_less_iff)
  with b show ?thesis unfolding c_def by (rule conjI)
qed

lemma win_size_of_Inr:
  "win_size_of N W = Inr b \<longleftrightarrow> 0 < W \<and> b = nat \<lceil>real N / real W\<rceil>"
  by (auto simp: win_size_of_def)

lemma bins_le:
  fixes N W b :: nat
  assumes "0 < b" "N \<le> W * b"
  shows "(N + b - 1) div b \<le> W"
proof -
  have "(W + 1) * b = W * b + b" by simp
  then have "N + b - 1 < (W + 1) * b" using assms by linarith
  then have "(N + b - 1) div b < W + 1" by (rule less_mult_imp_div_less)
  then show ?thesis by simp
qed

lemma bins_eq_iff:
  fixes N W b :: nat
  assumes "0 < b" "N \<le> W * b" "0 < W"
  shows "(N + b - 1) div b = W \<longleftrightarrow> (W - 1) * b < N"
proof -
  have "W \<le> (N + b - 1) div b \<longleftrightarrow> W * b \<le> N + b - 1"
    by (rule less_eq_div_iff_mult_less_eq[OF assms(1)])
  moreover have "b \<le> W * b" using assms(3) by simp
  then have "W * b \<le> N + b - 1 \<longleftrightarrow> W * b - b < N" using assms(1) by linarith
  moreover have "W * b - b = (W - 1) * b" by (simp add: diff_mult_distrib)
  ultimately have "W \<le> (N + b - 1) div b \<longleftrightarrow> (W - 1) * b < N" by simp
  then show ?thesis using bins_le[OF assms(1,2)] by auto
qed

lemma window_positions_length:
  "0 < w \<Longrightarrow> length (window_positions xs w) = (length xs + w - 1) div w"
  by (simp add: window_positions_def py_range_length)

lemma window_positions_nth:
  "0 < w \<Longrightarrow> k < (length xs + w - 1) div w \<Longrightarrow>
   window_positions xs w ! k = np_mean (take w (drop (k * w) xs))"
  by (simp add: window_positions_def py_range_length py_range_nth)

lemma bin_start_in_range:
  fixes N w k :: nat
  assumes "0 < w" "k < (N + w - 1) div w"
  shows "k * w < N"
proof -
  have "Suc k \<le> (N + w - 1) div w" using assms(2) by simp
  then have "Suc k * w \<le> N + w - 1"
    by (simp only: less_eq_div_iff_mult_less_eq[OF assms(1)])
  moreover have "Suc k * w = k * w + w" by simp
  ultimately show ?thesis using assms(1) by linarith
qed


lemma bins_concat_all:
  assumes "0 < w"
  shows "concat (map (\<lambda>k. take w (drop (k * w) xs)) [0..<(length xs + w - 1) div w]) = xs"
proof -
  have "concat (map (\<lambda>i. take w (drop i xs)) (py_range 0 (length xs) w)) = xs"
    using bins_concat[OF assms, of xs 0] by simp
  then show ?thesis using assms by (simp add: py_range_map comp_def)
qed

lemma mapE_Inr:
  "mapE f xs = Inr ys \<Longrightarrow> length ys = length xs \<and> (\<forall>j<length xs. f (xs ! j) = Inr (ys ! j))"
proof (induction xs arbitrary: ys)
  case Nil
  then show ?case by simp
next
  case (Cons x xs)
  from Cons.prems obtain y ys' where y: "f x = Inr y" "mapE f xs = Inr ys'" "ys = y # ys'"
    by (auto split: sum.splits)
  from Cons.IH[OF y(2)] y show ?case by (auto simp: nth_Cons split: nat.splits)
qed

lemma mapE_total:
  "(\<And>x. \<exists>y. f x = Inr y) \<Longrightarrow> \<exists>ys. mapE f xs = Inr ys"
proof (induction xs)
  case Nil
  then show ?case by simp
next
  case (Cons x xs)
  then obtain ys where "mapE f xs = Inr ys" by blast
  moreover obtain y where "f x = Inr y" using Cons.prems by blast
  ultimately show ?case by simp
qed

subsection \<open>The bins and their representative positions\<close>

text \<open>
  Claim C1, as amended. With \<open>N\<close> SNP positions, all mapped by \<^verbatim>\<open>pos2gm\<close>, and \<open>W\<close> windows,
  \<open>1 \<le> W \<le> N\<close>: the bin size is \<open>\<lceil>N / W\<rceil>\<close>, it is positive and satisfies
  \<open>W * (binSize - 1) < N \<le> W * binSize\<close>; the loop produces \<open>\<lceil>N / binSize\<rceil>\<close> representative
  positions, which is at most \<open>W\<close>, and is exactly \<open>W\<close> if and only if \<open>(W - 1) * binSize < N\<close>;
  the bins are consecutive, not empty, of length \<open>binSize\<close> but for a possibly shorter last one,
  and together they are the whole list; each representative position is the arithmetic mean of
  the genetic positions in its bin.
\<close>

theorem windowing_bins:
  assumes "mapE (pos2gm gm) snpLocations = Inr mapLocations"
    and "win_size_of (length mapLocations) W = Inr binSize"
    and "W \<le> length snpLocations"
  shows "length mapLocations = length snpLocations
       \<and> (\<forall>j<length snpLocations. pos2gm gm (snpLocations ! j) = Inr (mapLocations ! j))
       \<and> binSize = nat \<lceil>real (length snpLocations) / real W\<rceil>
       \<and> 0 < binSize
       \<and> W * (binSize - 1) < length snpLocations
       \<and> length snpLocations \<le> W * binSize
       \<and> length (window_positions mapLocations binSize)
           = (length snpLocations + binSize - 1) div binSize
       \<and> length (window_positions mapLocations binSize) \<le> W
       \<and> (length (window_positions mapLocations binSize) = W
            \<longleftrightarrow> (W - 1) * binSize < length snpLocations)
       \<and> (\<forall>k<length (window_positions mapLocations binSize).
             take binSize (drop (k * binSize) mapLocations) \<noteq> []
           \<and> length (take binSize (drop (k * binSize) mapLocations))
               = min binSize (length snpLocations - k * binSize)
           \<and> window_positions mapLocations binSize ! k
               = np_mean (take binSize (drop (k * binSize) mapLocations)))
       \<and> concat (map (\<lambda>k. take binSize (drop (k * binSize) mapLocations))
                      [0..<length (window_positions mapLocations binSize)]) = mapLocations"
proof -
  let ?N = "length snpLocations"
  have len: "length mapLocations = ?N"
    and vals: "\<forall>j< ?N. pos2gm gm (snpLocations ! j) = Inr (mapLocations ! j)"
    using mapE_Inr[OF assms(1)] by simp_all
  have W: "0 < W" and b: "binSize = nat \<lceil>real ?N / real W\<rceil>"
    using assms(2) by (simp_all add: win_size_of_Inr len)
  have N: "0 < ?N" using W assms(3) by (rule less_le_trans)
  have bpos: "0 < binSize" and lower: "W * (binSize - 1) < ?N"
    using ceil_lower[OF W N] by (simp_all add: b)
  have upper: "?N \<le> W * binSize" using ceil_upper[OF W, of ?N] by (simp add: b)
  have cnt: "length (window_positions mapLocations binSize) = (?N + binSize - 1) div binSize"
    using window_positions_length[OF bpos, of mapLocations] by (simp add: len)
  have le: "length (window_positions mapLocations binSize) \<le> W"
    unfolding cnt by (rule bins_le[OF bpos upper])
  have iff: "length (window_positions mapLocations binSize) = W \<longleftrightarrow> (W - 1) * binSize < ?N"
    unfolding cnt by (rule bins_eq_iff[OF bpos upper W])
  have each: "\<forall>k<length (window_positions mapLocations binSize).
             take binSize (drop (k * binSize) mapLocations) \<noteq> []
           \<and> length (take binSize (drop (k * binSize) mapLocations))
               = min binSize (?N - k * binSize)
           \<and> window_positions mapLocations binSize ! k
               = np_mean (take binSize (drop (k * binSize) mapLocations))"
  proof (intro allI impI)
    fix k assume "k < length (window_positions mapLocations binSize)"
    then have k: "k < (?N + binSize - 1) div binSize" by (simp only: cnt)
    have inr: "k * binSize < ?N" by (rule bin_start_in_range[OF bpos k])
    have "take binSize (drop (k * binSize) mapLocations) \<noteq> []"
      using inr bpos by (simp add: len)
    moreover have "length (take binSize (drop (k * binSize) mapLocations))
               = min binSize (?N - k * binSize)" by (simp add: len min.commute)
    moreover have "window_positions mapLocations binSize ! k
               = np_mean (take binSize (drop (k * binSize) mapLocations))"
      using window_positions_nth[OF bpos, of k mapLocations] k by (simp add: len)
    ultimately show "take binSize (drop (k * binSize) mapLocations) \<noteq> []
           \<and> length (take binSize (drop (k * binSize) mapLocations))
               = min binSize (?N - k * binSize)
           \<and> window_positions mapLocations binSize ! k
               = np_mean (take binSize (drop (k * binSize) mapLocations))" by simp
  qed
  have part: "concat (map (\<lambda>k. take binSize (drop (k * binSize) mapLocations))
                      [0..<length (window_positions mapLocations binSize)]) = mapLocations"
    unfolding cnt using bins_concat_all[OF bpos, of mapLocations] by (simp add: len)
  show ?thesis
    by (intro conjI) (fact len vals b bpos lower upper cnt le iff each part)+
qed

text \<open>
  The theorem at five SNP positions and two windows: the bin size is 3 and the two bins have
  three and two positions.
\<close>

theorem windowing_bins_witness:
  "mapE (pos2gm [(0, 0), (10, 1), (20, 4)]) [0, 5, 10, 15, 20] = Inr [0, 1 / 2, 1, 5 / 2, 4]
   \<and> win_size_of 5 2 = Inr 3
   \<and> length (window_positions [0, 1 / 2, 1, 5 / 2, 4] 3) = 2
   \<and> window_positions [0, 1 / 2, 1, 5 / 2, 4] 3 ! 1 = np_mean [5 / 2, 4]
   \<and> (2 - 1) * 3 < (5 :: nat)"
proof -
  let ?gm = "[(0, 0), (10, 1), (20, 4)] :: gm_table"
  let ?snp = "[0, 5, 10, 15, 20] :: real list"
  let ?ml = "[0, 1 / 2, 1, 5 / 2, 4] :: real list"
  have h1: "mapE (pos2gm ?gm) ?snp = Inr ?ml"
    by (simp add: pos2gm_def pos2gm_path_def pos2gm_try_def searchsorted_def
          binsearch_left.simps)
  have h2': "win_size_of 5 2 = Inr 3" by (simp add: win_size_of_def)
  have h2: "win_size_of (length ?ml) 2 = Inr 3" by (simp add: win_size_of_def)
  have h3: "2 \<le> length ?snp" by simp
  note th = windowing_bins[OF h1 h2 h3]
  have a: "length (window_positions ?ml 3) = 2" using th by simp
  have b: "window_positions ?ml 3 ! 1 = np_mean [5 / 2, 4]" using th a by simp
  have c: "(2 - 1) * 3 < (5 :: nat)" by simp
  show ?thesis by (intro conjI) (fact h1 h2' a b c)+
qed

text \<open>
  Claim C1 as stated fails at \<open>N = 5\<close>, \<open>W = 4\<close>: the bin size is 2, the loop produces 3
  representative positions and not 4, and \<open>(W - 1) * binSize = 6\<close> is not below \<open>N\<close>.
\<close>

theorem windowing_count_counterexample:
  "win_size_of 5 4 = Inr 2
   \<and> length (window_positions [1, 2, 3, 4, 5] 2) = 3
   \<and> \<not> (4 - 1) * 2 < (5 :: nat)"
  by (simp add: win_size_of_def window_positions_def py_range.simps)

section \<open>Properties of the transition and emission models\<close>

lemma class_matrix_length: "length (class_matrix n d) = n"
  by (simp add: class_matrix_def)

lemma class_matrix_row_length: "r < n \<Longrightarrow> length (class_matrix n d ! r) = n"
  by (simp add: class_matrix_def)

lemma class_matrix_entry:
  "r < n \<Longrightarrow> c < n \<Longrightarrow>
   class_matrix n d ! r ! c = (if r = c then d else (1 - d) / (real n - 1))"
  by (simp add: class_matrix_def)

lemma sum_list_update_real:
  fixes xs :: "real list"
  shows "j < length xs \<Longrightarrow> sum_list (xs[j := d]) = sum_list xs - xs ! j + d"
proof (induction xs arbitrary: j)
  case Nil
  then show ?case by simp
next
  case (Cons x xs)
  then show ?case by (cases j) simp_all
qed

lemma class_matrix_row_sum:
  assumes "2 \<le> n" "row \<in> set (class_matrix n d)"
  shows "sum_list row = 1"
proof -
  let ?v = "(1 - d) / real_of_int (int n - 1)"
  from assms(2) obtain j where j: "j < n" and row: "row = (replicate n ?v)[j := d]"
    by (auto simp: class_matrix_def)
  have ne: "real n - 1 \<noteq> 0" using assms(1) by simp
  have "sum_list row = real n * ?v - ?v + d"
    unfolding row using j by (simp add: sum_list_update_real sum_list_replicate)
  also have "\<dots> = (real n - 1) * ?v + d" by (simp only: left_diff_distrib mult_1)
  also have "(real n - 1) * ?v = 1 - d" using ne by simp
  finally show ?thesis by simp
qed

lemma transition_loop_length:
  "length (transition_loop g n ml w old is) = length is"
  by (induction "is" arbitrary: old) (simp_all add: Let_def)

lemma transition_loop_nth:
  "k < length is \<Longrightarrow>
   transition_loop g n ml w old is ! k =
     class_matrix n
       (exp (- (np_mean (take w (drop (is ! k) ml))
                 - (if k = 0 then old else np_mean (take w (drop (is ! (k - 1)) ml)))) / 100 * g))"
proof (induction "is" arbitrary: old k)
  case Nil
  then show ?case by simp
next
  case (Cons i "is")
  show ?case
  proof (cases k)
    case 0
    then show ?thesis by (simp add: Let_def)
  next
    case (Suc k')
    then have "k' < length is" using Cons.prems by simp
    from Cons.IH[OF this, of "np_mean (take w (drop i ml))"] Suc
    show ?thesis by (cases k') (simp_all add: Let_def)
  qed
qed

lemma transition_loop_class:
  "x \<in> set (transition_loop g n ml w old is) \<Longrightarrow> \<exists>e. x = class_matrix n e"
  by (induction "is" arbitrary: old) (auto simp: Let_def)

lemma transition_matrices_length:
  "length (transition_matrices g n ml w) = length (window_positions ml w)"
  by (simp add: transition_matrices_def window_positions_def transition_loop_length)

lemma transition_matrices_nth:
  assumes "k < length (window_positions ml w)"
  shows "transition_matrices g n ml w ! k =
     class_matrix n
       (exp (- (window_positions ml w ! k
                 - (if k = 0 then 0 else window_positions ml w ! (k - 1))) / 100 * g))"
proof -
  have k: "k < length (py_range 0 (length ml) w)"
    using assms by (simp add: window_positions_def)
  then have k1: "k - 1 < length (py_range 0 (length ml) w)" by simp
  show ?thesis
    unfolding transition_matrices_def window_positions_def
    using transition_loop_nth[OF k, of g n ml w 0] k k1 by simp
qed

lemma window_positions_one: "window_positions ps 1 = ps"
proof (rule nth_equalityI)
  show len: "length (window_positions ps 1) = length ps"
    by (simp add: window_positions_length)
  fix k assume "k < length (window_positions ps 1)"
  then have k: "k < length ps" by (simp only: len)
  then have "take 1 (drop k ps) = [ps ! k]"
    by (simp add: take_Suc_conv_app_nth[of 0] hd_drop_conv_nth take_Suc)
  then show "window_positions ps 1 ! k = ps ! k"
    using window_positions_nth[of 1 k ps] k by (simp add: np_mean_def)
qed

lemma window_positions_Suc0: "window_positions ps (Suc 0) = ps"
  using window_positions_one[of ps] by simp

lemma bins_count:
  assumes "win_size_of N W = Inr b" "W \<le> N"
  shows "0 < b \<and> W * (b - 1) < N \<and> N \<le> W * b \<and> (N + b - 1) div b \<le> W
       \<and> ((N + b - 1) div b = W \<longleftrightarrow> (W - 1) * b < N)"
proof -
  have W: "0 < W" and b: "b = nat \<lceil>real N / real W\<rceil>"
    using assms(1) by (simp_all add: win_size_of_Inr)
  have N: "0 < N" using W assms(2) by (rule less_le_trans)
  have bpos: "0 < b" and lower: "W * (b - 1) < N"
    using ceil_lower[OF W N] by (simp_all add: b)
  have upper: "N \<le> W * b" using ceil_upper[OF W, of N] by (simp add: b)
  show ?thesis
    by (intro conjI) (fact bpos lower upper bins_le[OF bpos upper] bins_eq_iff[OF bpos upper W])+
qed

text \<open>
  Claim C2, as amended. The loop builds one matrix per representative position \<open>p\<close>, in order:
  starting from the reference 0, it takes \<open>e = exp (- (p - reference) / 100 * nGens)\<close> and moves
  the reference to \<open>p\<close>; the matrix has \<open>nClasses\<close> rows and columns, \<open>e\<close> on the diagonal and
  \<open>(1 - e) / (nClasses - 1)\<close> elsewhere. \<open>e \<le> 1\<close> when \<open>nGens > 0\<close>, the positions do not decrease
  and the first position is not below the reference 0. In exact real arithmetic \<open>e\<close> is
  positive; this lower bound is one of exact arithmetic only, since \<^verbatim>\<open>np.exp\<close> underflows to 0
  for a large distance and the loop does not clip. Every sequence of positions arises (lemma
  \<open>window_positions_one\<close>).
\<close>

theorem transition_entries:
  "length (transition_matrices nGens nClasses mapLocations win_size)
     = length (window_positions mapLocations win_size)
   \<and> (\<forall>k<length (window_positions mapLocations win_size).
         transition_matrices nGens nClasses mapLocations win_size ! k
           = class_matrix nClasses
               (exp (- (window_positions mapLocations win_size ! k
                         - (if k = 0 then 0 else window_positions mapLocations win_size ! (k - 1)))
                       / 100 * nGens))
       \<and> 0 < exp (- (window_positions mapLocations win_size ! k
                         - (if k = 0 then 0 else window_positions mapLocations win_size ! (k - 1)))
                       / 100 * nGens)
       \<and> (0 < nGens \<and> sorted (window_positions mapLocations win_size)
            \<and> 0 \<le> hd (window_positions mapLocations win_size) \<longrightarrow>
            exp (- (window_positions mapLocations win_size ! k
                         - (if k = 0 then 0 else window_positions mapLocations win_size ! (k - 1)))
                       / 100 * nGens) \<le> 1))
   \<and> length (class_matrix nClasses e) = nClasses
   \<and> (\<forall>r<nClasses. length (class_matrix nClasses e ! r) = nClasses
        \<and> (\<forall>c<nClasses. class_matrix nClasses e ! r ! c
                            = (if r = c then e else (1 - e) / (real nClasses - 1))))"
proof (intro conjI allI impI)
  show "length (transition_matrices nGens nClasses mapLocations win_size)
     = length (window_positions mapLocations win_size)"
    by (rule transition_matrices_length)
next
  fix k assume "k < length (window_positions mapLocations win_size)"
  then show "transition_matrices nGens nClasses mapLocations win_size ! k
           = class_matrix nClasses
               (exp (- (window_positions mapLocations win_size ! k
                         - (if k = 0 then 0 else window_positions mapLocations win_size ! (k - 1)))
                       / 100 * nGens))"
    by (rule transition_matrices_nth)
next
  fix k
  show "0 < exp (- (window_positions mapLocations win_size ! k
                         - (if k = 0 then 0 else window_positions mapLocations win_size ! (k - 1)))
                       / 100 * nGens)"
    by (rule exp_gt_zero)
next
  fix k
  let ?p = "window_positions mapLocations win_size"
  assume k: "k < length ?p" and h: "0 < nGens \<and> sorted ?p \<and> 0 \<le> hd ?p"
  have "(if k = 0 then 0 else ?p ! (k - 1)) \<le> ?p ! k"
  proof (cases "k = 0")
    case True
    then show ?thesis using h k by (simp add: hd_conv_nth)
  next
    case False
    then have "?p ! (k - 1) \<le> ?p ! k"
      using h k sorted_nth_mono[of ?p "k - 1" k] by simp
    with False show ?thesis by simp
  qed
  then have d: "0 \<le> ?p ! k - (if k = 0 then 0 else ?p ! (k - 1))" by simp
  define d where "d = ?p ! k - (if k = 0 then 0 else ?p ! (k - 1))"
  have "0 \<le> d" using d by (simp only: d_def)
  moreover have "0 \<le> nGens" using h by simp
  ultimately have "0 \<le> d * nGens" by (rule mult_nonneg_nonneg)
  then have "- d / 100 * nGens \<le> 0" by simp
  then have "exp (- d / 100 * nGens) \<le> 1" by (simp only: exp_le_one_iff)
  then show "exp (- (?p ! k - (if k = 0 then 0 else ?p ! (k - 1))) / 100 * nGens) \<le> 1"
    by (simp only: d_def)
next
  show "length (class_matrix nClasses e) = nClasses" by (rule class_matrix_length)
next
  fix r assume "r < nClasses"
  then show "length (class_matrix nClasses e ! r) = nClasses" by (rule class_matrix_row_length)
next
  fix r c assume "r < nClasses" "c < nClasses"
  then show "class_matrix nClasses e ! r ! c = (if r = c then e else (1 - e) / (real nClasses - 1))"
    by (rule class_matrix_entry)
qed

text \<open>
  The theorem at the positions 0 and 100 with one generation and two classes.
\<close>

theorem transition_entries_witness:
  "length (transition_matrices 1 2 [0, 100] 1) = 2
   \<and> transition_matrices 1 2 [0, 100] 1 ! 1 = class_matrix 2 (exp (- 1))
   \<and> exp (- 1) \<le> (1 :: real)
   \<and> class_matrix 2 (exp (- 1)) ! 0 ! 0 = exp (- 1)
   \<and> class_matrix 2 (exp (- 1)) ! 0 ! 1 = 1 - exp (- 1)"
proof -
  have p: "window_positions [0, 100] 1 = [0, 100]" by (rule window_positions_one)
  note th = transition_entries[of 1 2 "[0, 100]" 1 "exp (- 1)", unfolded p]
  have a: "length (transition_matrices 1 2 [0, 100] 1) = 2" using th by simp
  have k: "(\<forall>k<2. transition_matrices 1 2 [0, 100] 1 ! k
           = class_matrix 2 (exp (- ([0, 100] ! k - (if k = 0 then 0 else [0, 100 :: real] ! (k - 1))) / 100 * 1))
       \<and> (0 < (1 :: real) \<and> sorted [0, 100 :: real] \<and> 0 \<le> hd [0, 100 :: real] \<longrightarrow>
            exp (- ([0, 100] ! k - (if k = 0 then 0 else [0, 100 :: real] ! (k - 1))) / 100 * 1) \<le> 1))"
    using th by simp
  from k have b: "transition_matrices 1 2 [0, 100] 1 ! 1 = class_matrix 2 (exp (- 1))"
    by (auto dest!: spec[of _ 1])
  from k have c: "exp (- 1) \<le> (1 :: real)" by (auto dest!: spec[of _ 1])
  have d: "class_matrix 2 (exp (- 1)) ! 0 ! 0 = exp (- 1)" using th by simp
  have e: "class_matrix 2 (exp (- 1)) ! 0 ! 1 = 1 - exp (- 1)" using th by simp
  show ?thesis by (intro conjI) (fact a b c d e)+
qed

text \<open>
  Claim C2 as stated fails for a first position below the reference 0: the one-element
  sequence \<open>- 100\<close> does not decrease and \<open>nGens = 1 > 0\<close>, yet \<open>e = exp 1 > 1\<close>.
\<close>

theorem retention_above_one_counterexample:
  "window_positions [- 100] 1 = [- 100]
   \<and> sorted (window_positions [- 100] 1)
   \<and> (0 :: real) < 1
   \<and> transition_matrices 1 2 [- 100] 1 = [class_matrix 2 (exp 1)]
   \<and> class_matrix 2 (exp 1) ! 0 ! 0 = exp 1
   \<and> (1 :: real) < exp 1"
proof -
  have p: "window_positions [- 100] 1 = [- 100]" by (rule window_positions_one)
  have a: "transition_matrices 1 2 [- 100] 1 = [class_matrix 2 (exp 1)]"
    by (simp add: transition_matrices_def py_range.simps np_mean_def)
  have b: "class_matrix 2 (exp 1) ! 0 ! 0 = exp 1" by (simp add: class_matrix_entry)
  have c: "(1 :: real) < exp 1" by (rule exp_gt_one) simp
  show ?thesis using p a b c by simp
qed

text \<open>
  Claim C3, as amended. The loop that builds the transition matrices appends one matrix per
  bin, the first one computed against the reference 0: with \<open>1 \<le> W \<le> N\<close> it produces
  \<open>\<lceil>N / binSize\<rceil>\<close> matrices, as many as there are representative positions; that is at most
  \<open>W\<close>, exactly \<open>W\<close> if and only if \<open>(W - 1) * binSize < N\<close>, and in particular \<open>W\<close> when
  \<open>N = W\<close>.
\<close>

theorem transition_count:
  assumes "win_size_of (length mapLocations) W = Inr binSize"
    and "W \<le> length mapLocations"
  shows "length (transition_matrices nGens nClasses mapLocations binSize)
           = length (window_positions mapLocations binSize)
       \<and> length (transition_matrices nGens nClasses mapLocations binSize)
           = (length mapLocations + binSize - 1) div binSize
       \<and> length (transition_matrices nGens nClasses mapLocations binSize) \<le> W
       \<and> (length (transition_matrices nGens nClasses mapLocations binSize) = W
            \<longleftrightarrow> (W - 1) * binSize < length mapLocations)
       \<and> (length mapLocations = W \<longrightarrow>
            length (transition_matrices nGens nClasses mapLocations binSize) = W)"
proof -
  let ?N = "length mapLocations"
  let ?a = "transition_matrices nGens nClasses mapLocations binSize"
  note bc = bins_count[OF assms]
  have bpos: "0 < binSize" using bc by simp
  have one: "length ?a = length (window_positions mapLocations binSize)"
    by (rule transition_matrices_length)
  have cnt: "length ?a = (?N + binSize - 1) div binSize"
    by (simp only: one window_positions_length[OF bpos])
  have le: "length ?a \<le> W" unfolding cnt using bc by simp
  have iff: "length ?a = W \<longleftrightarrow> (W - 1) * binSize < ?N" unfolding cnt using bc by simp
  have eq: "?N = W \<longrightarrow> length ?a = W"
  proof
    assume NW: "?N = W"
    have W: "0 < W" using assms(1) by (simp add: win_size_of_Inr)
    have "W * (binSize - 1) < W * 1" using bc NW by simp
    then have "binSize - 1 < 1" using W by (simp only: mult_less_cancel1)
    then have "binSize = 1" using bpos by simp
    then have "(W - 1) * binSize < ?N" using W NW by simp
    then show "length ?a = W" by (simp only: iff)
  qed
  show ?thesis by (intro conjI) (fact one cnt le iff eq)+
qed

text \<open>
  The theorem at five positions and two windows: two matrices.
\<close>

theorem transition_count_witness:
  "win_size_of 5 2 = Inr 3
   \<and> length (transition_matrices 1 2 [0, 1 / 2, 1, 5 / 2, 4] 3) = 2
   \<and> (2 - 1) * 3 < (5 :: nat)"
proof -
  let ?ml = "[0, 1 / 2, 1, 5 / 2, 4] :: real list"
  have h2': "win_size_of 5 2 = Inr 3" by (simp add: win_size_of_def)
  have h2: "win_size_of (length ?ml) 2 = Inr 3" by (simp add: win_size_of_def)
  have h3: "2 \<le> length ?ml" by simp
  have a: "length (transition_matrices 1 2 ?ml 3) = 2"
    using transition_count[OF h2 h3, of 1 2] by simp
  have c: "(2 - 1) * 3 < (5 :: nat)" by simp
  show ?thesis by (intro conjI) (fact h2' a c)+
qed

text \<open>
  Claim C3 as stated fails at \<open>N = W = 3\<close>: three transition matrices are produced, not
  \<open>W - 1 = 2\<close>.
\<close>

theorem transition_count_counterexample:
  "win_size_of 3 3 = Inr 1
   \<and> length (transition_matrices 1 2 [0, 1, 2] 1) = 3
   \<and> (3 :: nat) \<noteq> 3 - 1"
  by (simp add: win_size_of_def transition_matrices_length window_positions_Suc0)

text \<open>
  Claim C4. For a success-rate sequence of length \<open>W\<close> the emission loop produces exactly \<open>W\<close>
  matrices; the \<open>t\<close>-th has \<open>nClasses\<close> rows and columns, \<open>successRate\<^sub>t\<close> on the diagonal and
  \<open>(1 - successRate\<^sub>t) / (nClasses - 1)\<close> elsewhere. This holds for every \<open>nClasses\<close> and every
  real success rate, so in particular for \<open>nClasses \<ge> 2\<close> and rates in \<open>[0, 1]\<close>.
\<close>

theorem emission_entries:
  "length (emission_matrices nClasses successRate) = length successRate
   \<and> (\<forall>t<length successRate.
         length (emission_matrices nClasses successRate ! t) = nClasses
       \<and> (\<forall>i<nClasses.
             length (emission_matrices nClasses successRate ! t ! i) = nClasses
           \<and> (\<forall>j<nClasses.
                 emission_matrices nClasses successRate ! t ! i ! j
                   = (if i = j then successRate ! t
                      else (1 - successRate ! t) / (real nClasses - 1)))))"
  by (simp add: emission_matrices_def class_matrix_length class_matrix_row_length
        class_matrix_entry)

text \<open>
  The theorem at three classes and the success rates 1 and 1/4.
\<close>

theorem emission_entries_witness:
  "length (emission_matrices 3 [1, 1 / 4]) = 2
   \<and> length (emission_matrices 3 [1, 1 / 4] ! 1) = 3
   \<and> emission_matrices 3 [1, 1 / 4] ! 1 ! 1 ! 1 = 1 / 4
   \<and> emission_matrices 3 [1, 1 / 4] ! 1 ! 0 ! 2 = 3 / 8"
proof -
  note th = emission_entries[of 3 "[1, 1 / 4]"]
  have a: "length (emission_matrices 3 [1, 1 / 4]) = 2" using th by simp
  from th have t1: "length (emission_matrices 3 [1, 1 / 4] ! 1) = 3
       \<and> (\<forall>i<3. length (emission_matrices 3 [1, 1 / 4] ! 1 ! i) = 3
           \<and> (\<forall>j<3. emission_matrices 3 [1, 1 / 4] ! 1 ! i ! j
                   = (if i = j then [1, 1 / 4] ! 1 else (1 - [1, 1 / 4] ! 1) / (real 3 - 1))))"
    by (auto dest!: spec[of _ 1])
  then have b: "length (emission_matrices 3 [1, 1 / 4] ! 1) = 3" by simp
  from t1 have c: "emission_matrices 3 [1, 1 / 4] ! 1 ! 1 ! 1 = 1 / 4" by simp
  from t1 have d: "emission_matrices 3 [1, 1 / 4] ! 1 ! 0 ! 2 = 3 / 8" by simp
  show ?thesis by (intro conjI) (fact a b c d)+
qed

lemma models_rows_sum:
  assumes "hmmFilter_models gm nGens nClasses snpLocations successRate W = Inr (a, b)"
    and "2 \<le> nClasses"
  shows "(\<forall>x\<in>set a. \<forall>row\<in>set x. sum_list row = 1)
       \<and> (\<forall>x\<in>set b. \<forall>row\<in>set x. sum_list row = 1)"
proof -
  from assms(1) obtain mapLocations win_size where
    a: "a = transition_matrices nGens nClasses mapLocations win_size"
    and b: "b = emission_matrices nClasses successRate"
    by (auto simp: hmmFilter_models_def split: sum.splits if_splits)
  have "\<forall>x\<in>set a. \<forall>row\<in>set x. sum_list row = 1"
  proof (intro ballI)
    fix x row assume "x \<in> set a" "row \<in> set x"
    then obtain e where "x = class_matrix nClasses e"
      unfolding a transition_matrices_def by (auto dest: transition_loop_class)
    with \<open>row \<in> set x\<close> show "sum_list row = 1"
      using class_matrix_row_sum[OF assms(2)] by simp
  qed
  moreover have "\<forall>x\<in>set b. \<forall>row\<in>set x. sum_list row = 1"
  proof (intro ballI)
    fix x row assume "x \<in> set b" "row \<in> set x"
    then obtain s where "x = class_matrix nClasses s"
      unfolding b emission_matrices_def by auto
    with \<open>row \<in> set x\<close> show "sum_list row = 1"
      using class_matrix_row_sum[OF assms(2)] by simp
  qed
  ultimately show ?thesis by (rule conjI)
qed

section \<open>Row sums, in exact arithmetic and under float64 rounding\<close>

subsection \<open>Rounding to float64\<close>

lemma rne_near:
  assumes "\<bar>d\<bar> < 1 / 2"
  shows "rne (real_of_int M + d) = M"
proof (cases "0 \<le> d")
  case True
  then have f: "\<lfloor>real_of_int M + d\<rfloor> = M" using assms by (simp add: floor_unique)
  show ?thesis using assms True by (simp add: rne_def f Let_def)
next
  case False
  then have f: "\<lfloor>real_of_int M + d\<rfloor> = M - 1" using assms by (simp add: floor_unique)
  show ?thesis using assms False by (simp add: rne_def f Let_def)
qed

lemma rne_int: "rne (real_of_int M) = M"
  using rne_near[of 0 M] by simp

lemma rne_err: "\<bar>real_of_int (rne t) - t\<bar> \<le> 1 / 2"
proof -
  have "real_of_int \<lfloor>t\<rfloor> \<le> t" "t < real_of_int \<lfloor>t\<rfloor> + 1" by linarith+
  then show ?thesis by (auto simp: rne_def Let_def)
qed

lemma rne_le:
  assumes "t \<le> real_of_int N"
  shows "rne t \<le> N"
proof (cases "\<lfloor>t\<rfloor> = N")
  case True
  then have "t = real_of_int N" using assms by linarith
  then show ?thesis by (simp add: rne_int)
next
  case False
  have "\<lfloor>t\<rfloor> \<le> N" using assms by (simp add: floor_le_iff)
  with False have "\<lfloor>t\<rfloor> + 1 \<le> N" by simp
  then show ?thesis by (auto simp: rne_def Let_def)
qed

lemma rne_ge:
  assumes "real_of_int N \<le> t"
  shows "N \<le> rne t"
proof -
  have "N \<le> \<lfloor>t\<rfloor>" using assms by (simp add: le_floor_iff)
  then show ?thesis by (auto simp: rne_def Let_def)
qed

lemma ulp64_pos: "0 < ulp64 x"
  by (simp add: ulp64_def)

lemma fl64_err: "\<bar>fl64 x - x\<bar> \<le> ulp64 x / 2"
proof (cases "x = 0")
  case True
  then show ?thesis using ulp64_pos[of x] by (simp add: fl64_def)
next
  case False
  let ?u = "ulp64 x"
  have u: "0 < ?u" by (rule ulp64_pos)
  have "fl64 x - x = (real_of_int (rne (x / ?u)) - x / ?u) * ?u"
    using False u by (simp add: fl64_def algebra_simps)
  then have "\<bar>fl64 x - x\<bar> = \<bar>real_of_int (rne (x / ?u)) - x / ?u\<bar> * ?u"
    using u by (simp add: abs_mult)
  also have "\<dots> \<le> (1 / 2) * ?u"
    by (rule mult_right_mono[OF rne_err]) (use u in simp)
  finally show ?thesis by simp
qed

lemma fl64_nonneg:
  assumes "0 \<le> x"
  shows "0 \<le> fl64 x"
proof -
  have "real_of_int 0 \<le> x / ulp64 x" using assms ulp64_pos[of x] by simp
  then have "0 \<le> rne (x / ulp64 x)" by (rule rne_ge)
  then show ?thesis using ulp64_pos[of x] by (simp add: fl64_def)
qed

lemma fl64_nonpos:
  assumes "x \<le> 0"
  shows "fl64 x \<le> 0"
proof -
  have "x / ulp64 x \<le> real_of_int 0" using assms ulp64_pos[of x] by (simp add: divide_nonpos_pos)
  then have "rne (x / ulp64 x) \<le> 0" by (rule rne_le)
  then show ?thesis using ulp64_pos[of x] by (simp add: fl64_def mult_nonpos_nonneg)
qed

lemma binade_eq:
  assumes "x \<noteq> 0" "2 powr real_of_int k \<le> \<bar>x\<bar>" "\<bar>x\<bar> < 2 powr (real_of_int k + 1)"
    and "- 1022 \<le> k"
  shows "binade x = k"
proof -
  have "0 < \<bar>x\<bar>" using assms(1) by simp
  then have "\<lfloor>log 2 \<bar>x\<bar>\<rfloor> = k"
    using assms(2,3) floor_log_eq_powr_iff[of "\<bar>x\<bar>" 2 k] by simp
  then show ?thesis using assms(4) by (simp add: binade_def)
qed

lemma binade_normal:
  assumes "2 powr (- 1022) \<le> \<bar>x\<bar>"
  shows "2 powr real_of_int (binade x) \<le> \<bar>x\<bar>"
proof -
  have pos: "0 < \<bar>x\<bar>" using assms powr_gt_zero[of 2 "- 1022"] by linarith
  define k where "k = \<lfloor>log 2 \<bar>x\<bar>\<rfloor>"
  have kk: "2 powr real_of_int k \<le> \<bar>x\<bar>"
    using floor_log_eq_powr_iff[of "\<bar>x\<bar>" 2 k] pos by (simp add: k_def)
  have "- 1022 \<le> log 2 \<bar>x\<bar>" using assms pos by (simp add: le_log_iff)
  then have "- 1022 \<le> k" unfolding k_def by (simp add: le_floor_iff)
  then have "binade x = k" by (simp add: binade_def k_def)
  with kk show ?thesis by simp
qed

lemma binade_subnormal:
  assumes "x \<noteq> 0" "\<bar>x\<bar> < 2 powr (- 1022)"
  shows "binade x = - 1022"
proof -
  have pos: "0 < \<bar>x\<bar>" using assms(1) by simp
  have "log 2 \<bar>x\<bar> < - 1022" using assms(2) pos by (simp add: log_less_iff)
  then have "\<lfloor>log 2 \<bar>x\<bar>\<rfloor> < - 1022" by (simp add: floor_less_iff)
  then show ?thesis by (simp add: binade_def)
qed

lemma half_ulp: "2 powr (real_of_int k - 52) / 2 = 2 powr real_of_int k * 2 powr (- 53)"
proof -
  have "2 powr (real_of_int k - 52) / 2 = 2 powr (real_of_int k - 52) * 2 powr (- 1)"
    by (simp add: powr_minus)
  also have "\<dots> = 2 powr (real_of_int k - 52 + (- 1))" by (simp only: powr_add)
  also have "real_of_int k - 52 + (- 1) = real_of_int k + (- 53)" by simp
  also have "2 powr (real_of_int k + (- 53)) = 2 powr real_of_int k * 2 powr (- 53)"
    by (simp only: powr_add)
  finally show ?thesis .
qed

lemma fl64_err_rel: "\<bar>fl64 x - x\<bar> \<le> 2 powr (- 53) * \<bar>x\<bar> + 2 powr (- 1075)"
proof (cases "x = 0")
  case True
  then show ?thesis by (simp add: fl64_def)
next
  case False
  have e: "\<bar>fl64 x - x\<bar> \<le> 2 powr (real_of_int (binade x) - 52) / 2"
    using fl64_err[of x] by (simp add: ulp64_def)
  show ?thesis
  proof (cases "2 powr (- 1022) \<le> \<bar>x\<bar>")
    case True
    have "2 powr (real_of_int (binade x) - 52) / 2 = 2 powr real_of_int (binade x) * 2 powr (- 53)"
      by (rule half_ulp)
    also have "\<dots> \<le> \<bar>x\<bar> * 2 powr (- 53)"
      by (rule mult_right_mono[OF binade_normal[OF True]]) simp
    finally have "2 powr (real_of_int (binade x) - 52) / 2 \<le> 2 powr (- 53) * \<bar>x\<bar>"
      by (simp add: mult.commute)
    moreover have "0 \<le> (2::real) powr (- 1075)" by simp
    ultimately show ?thesis using e by linarith
  next
    case sub: False
    then have b: "binade x = - 1022" using binade_subnormal[OF False] by simp
    have "2 powr (real_of_int (binade x) - 52) / 2 = 2 powr real_of_int (- 1022) * 2 powr (- 53)"
      unfolding b by (rule half_ulp)
    also have "\<dots> = 2 powr (- 1075)" by (simp add: powr_add[symmetric])
    finally have "2 powr (real_of_int (binade x) - 52) / 2 = 2 powr (- 1075)" .
    moreover have "0 \<le> 2 powr (- 53) * \<bar>x\<bar>" by simp
    ultimately show ?thesis using e by linarith
  qed
qed

lemma fl64_le_one:
  assumes "x \<le> 1"
  shows "fl64 x \<le> 1"
proof (cases "0 < x")
  case False
  then have "fl64 x \<le> 0" by (simp add: fl64_nonpos)
  then show ?thesis by simp
next
  case True
  have "log 2 \<bar>x\<bar> \<le> 0" using True assms by simp
  then have "\<lfloor>log 2 \<bar>x\<bar>\<rfloor> \<le> 0" by (simp add: floor_le_iff)
  then have b: "binade x \<le> 0" by (simp add: binade_def)
  define j where "j = nat (52 - binade x)"
  have j: "real_of_int (binade x) - 52 = - real j" using b by (simp add: j_def)
  have u: "ulp64 x = 1 / 2 ^ j"
    unfolding ulp64_def j by (simp add: powr_minus powr_realpow inverse_eq_divide)
  have "x / ulp64 x = x * 2 ^ j" by (simp add: u)
  also have "\<dots> \<le> 1 * 2 ^ j" by (rule mult_right_mono[OF assms]) simp
  finally have "x / ulp64 x \<le> real_of_int (2 ^ j)" by simp
  then have "rne (x / ulp64 x) \<le> 2 ^ j" by (rule rne_le)
  then have "real_of_int (rne (x / ulp64 x)) \<le> 2 ^ j"
    by (metis of_int_le_iff of_int_numeral of_int_power)
  then have "real_of_int (rne (x / ulp64 x)) * ulp64 x \<le> 2 ^ j * ulp64 x"
    by (rule mult_right_mono) (simp add: u)
  also have "\<dots> = 1" by (simp add: u)
  finally show ?thesis using True by (simp add: fl64_def)
qed

lemma np_exp64_unit:
  assumes "x \<le> 0"
  shows "0 \<le> np_exp64 x \<and> np_exp64 x \<le> 1"
proof -
  have "0 \<le> exp x" by simp
  moreover have "exp x \<le> 1" using assms by simp
  ultimately show ?thesis unfolding np_exp64_def by (simp add: fl64_nonneg fl64_le_one)
qed

lemma retention64_unit:
  assumes "oldPos \<le> newPos" "0 \<le> nGens"
  shows "0 \<le> retention64 newPos oldPos nGens \<and> retention64 newPos oldPos nGens \<le> 1"
proof -
  have "0 \<le> fl64 (newPos - oldPos)" using assms(1) by (simp add: fl64_nonneg)
  then have "- fl64 (newPos - oldPos) / 100 \<le> 0" by simp
  then have "fl64 (- fl64 (newPos - oldPos) / 100) \<le> 0" by (rule fl64_nonpos)
  then have "fl64 (- fl64 (newPos - oldPos) / 100) * nGens \<le> 0"
    using assms(2) by (rule mult_nonpos_nonneg)
  then have "fl64 (fl64 (- fl64 (newPos - oldPos) / 100) * nGens) \<le> 0" by (rule fl64_nonpos)
  then show ?thesis unfolding retention64_def by (rule np_exp64_unit)
qed

lemma pow2_consts:
  "(2::real) powr (- 53) = 1 / 2 ^ 53" "(2::real) powr (- 1075) = 1 / 2 ^ 1075"
  by (simp_all add: powr_minus inverse_eq_divide)

lemma class_matrix64_row_sum:
  assumes n: "2 \<le> n" "n \<le> 2 ^ 53" and d: "0 \<le> d" "d \<le> 1"
    and row: "row \<in> set (class_matrix64 n d)"
  shows "\<bar>sum_list row - 1\<bar> \<le> 1 / 10 ^ 9"
proof -
  define x where "x = 1 - d"
  define a where "a = fl64 x"
  define c where "c = real n - 1"
  define v where "v = fl64 (a / c)"
  define u where "u = (1::real) / 2 ^ 53"
  define t where "t = (1::real) / 2 ^ 1075"
  have x: "0 \<le> x" "x \<le> 1" using d by (simp_all add: x_def)
  have c: "1 \<le> c" "c \<le> 2 ^ 53" using n by (simp_all add: c_def)
  have a: "0 \<le> a" "a \<le> 1" using x by (simp_all add: a_def fl64_nonneg fl64_le_one)
  have ea: "\<bar>a - x\<bar> \<le> u * x + t"
    using fl64_err_rel[of x] x by (simp add: a_def u_def t_def pow2_consts)
  have q: "0 \<le> a / c" using a c by simp
  have ev: "\<bar>v - a / c\<bar> \<le> u * (a / c) + t"
    using fl64_err_rel[of "a / c"] q by (simp add: v_def u_def t_def pow2_consts)
  have "\<bar>c * v - a\<bar> = c * \<bar>v - a / c\<bar>"
  proof -
    have "c * v - a = c * (v - a / c)" using c by (simp add: algebra_simps)
    then show ?thesis using c by (simp add: abs_mult)
  qed
  also have "\<dots> \<le> c * (u * (a / c) + t)"
    by (rule mult_left_mono[OF ev]) (use c in simp)
  also have "\<dots> = u * a + c * t" using c by (simp add: algebra_simps)
  finally have ecv: "\<bar>c * v - a\<bar> \<le> u * a + c * t" .
  have ct: "c * t \<le> 2 ^ 53 * t"
    by (rule mult_right_mono[OF c(2)]) (simp add: t_def)
  have ua: "u * a \<le> u" using a by (simp add: u_def)
  have ux: "u * x \<le> u" using x by (simp add: u_def)
  have "\<bar>c * v - x\<bar> \<le> \<bar>c * v - a\<bar> + \<bar>a - x\<bar>" by simp
  also have "\<dots> \<le> (u + 2 ^ 53 * t) + (u + t)" using ecv ea ct ua ux by linarith
  also have "\<dots> \<le> 1 / 10 ^ 9" by (simp add: u_def t_def)
  finally have bound: "\<bar>c * v - x\<bar> \<le> 1 / 10 ^ 9" .
  from row obtain j where j: "j < n" and r: "row = (replicate n v)[j := d]"
    by (auto simp: class_matrix64_def v_def a_def x_def c_def)
  have "sum_list row = real n * v - v + d"
    unfolding r using j by (simp add: sum_list_update_real sum_list_replicate)
  also have "\<dots> = c * v + d" by (simp add: c_def algebra_simps)
  finally have "sum_list row - 1 = c * v - x" by (simp add: x_def)
  with bound show ?thesis by simp
qed

lemma fl64_exact:
  assumes "x \<noteq> 0" "binade x = k" "x / 2 powr (real_of_int k - 52) = real_of_int M"
  shows "fl64 x = x"
proof -
  have u: "ulp64 x = 2 powr (real_of_int k - 52)" by (simp add: ulp64_def assms(2))
  have "x = real_of_int M * 2 powr (real_of_int k - 52)"
    using assms(3) by (simp add: field_simps)
  moreover have "fl64 x = real_of_int M * 2 powr (real_of_int k - 52)"
    using assms(1) by (simp add: fl64_def u assms(3) rne_int)
  ultimately show ?thesis by simp
qed

lemma fl64_m100: "fl64 (- 100) = - 100"
proof (rule fl64_exact[where k = 6 and M = "- 100 * 2 ^ 46"])
  show "binade (- 100) = 6" by (rule binade_eq) simp_all
  show "- 100 / 2 powr (real_of_int 6 - 52) = real_of_int (- 100 * 2 ^ 46)"
    by (simp add: powr_minus)
qed simp

lemma fl64_100: "fl64 100 = 100"
proof (rule fl64_exact[where k = 6 and M = "100 * 2 ^ 46"])
  show "binade 100 = 6" by (rule binade_eq) simp_all
  show "100 / 2 powr (real_of_int 6 - 52) = real_of_int (100 * 2 ^ 46)"
    by (simp add: powr_minus)
qed simp

lemma fl64_1: "fl64 1 = 1"
proof (rule fl64_exact[where k = 0 and M = "2 ^ 52"])
  show "binade 1 = 0" by (rule binade_eq) simp_all
  show "1 / 2 powr (real_of_int 0 - 52) = real_of_int (2 ^ 52)"
    by (simp add: powr_minus)
qed simp

lemma retention64_far_below: "retention64 (- 100) 0 100 = np_exp64 100"
  by (simp add: retention64_def fl64_m100 fl64_1 fl64_100)

lemma fl64_mult4:
  assumes "2 powr 54 \<le> \<bar>z\<bar>"
  shows "\<exists>M. fl64 z = 4 * real_of_int M"
proof -
  have pos: "0 < \<bar>z\<bar>" using assms powr_gt_zero[of 2 54] by linarith
  then have nz: "z \<noteq> 0" by simp
  have "54 \<le> log 2 \<bar>z\<bar>" using assms pos by (simp add: le_log_iff)
  then have "54 \<le> \<lfloor>log 2 \<bar>z\<bar>\<rfloor>" by (simp add: le_floor_iff)
  then have b: "54 \<le> binade z" by (simp add: binade_def)
  define j where "j = nat (binade z - 54)"
  have "real_of_int (binade z) - 52 = 2 + real j" using b by (simp add: j_def)
  then have "ulp64 z = 2 powr 2 * 2 powr real j" by (simp add: ulp64_def powr_add)
  then have u: "ulp64 z = 4 * 2 ^ j" by (simp add: powr_realpow)
  have "fl64 z = 4 * real_of_int (rne (z / ulp64 z) * 2 ^ j)"
    using nz by (simp add: fl64_def u)
  then show ?thesis by blast
qed

lemma exp_100_big: "2 ^ 100 \<le> exp (100 :: real)"
proof -
  have "(2::real) \<le> exp 1" using exp_ge_add_one_self[of "1::real"] by simp
  then have "(2::real) ^ 100 \<le> exp 1 ^ 100" by (rule power_mono) simp
  also have "\<dots> = exp (real 100 * 1)" by (simp only: exp_of_nat_mult)
  finally show ?thesis by simp
qed

lemma fl64_big:
  assumes "2 ^ 58 \<le> \<bar>z\<bar>"
  shows "\<bar>z\<bar> / 2 \<le> \<bar>fl64 z\<bar>"
proof -
  have e: "\<bar>fl64 z - z\<bar> \<le> (1 / 2 ^ 53) * \<bar>z\<bar> + 1 / 2 ^ 1075"
    using fl64_err_rel[of z] by (simp add: pow2_consts)
  have "(1 / 2 ^ 53) * \<bar>z\<bar> \<le> \<bar>z\<bar> / 4" by simp
  moreover have "(1::real) / 2 ^ 1075 \<le> 1" by simp
  moreover have "1 \<le> \<bar>z\<bar> / 4" using assms by simp
  ultimately have "\<bar>fl64 z - z\<bar> \<le> \<bar>z\<bar> / 2" using e by linarith
  then show ?thesis by linarith
qed

lemma far_below_row_sum:
  "1 \<le> \<bar>sum_list (class_matrix64 2 (np_exp64 100) ! 0) - 1\<bar> \<and> 2 ^ 99 \<le> np_exp64 100"
proof -
  define E where "E = np_exp64 100"
  define a where "a = fl64 (1 - E)"
  define v where "v = fl64 a"
  have big: "(2::real) ^ 100 \<le> \<bar>exp 100\<bar>" using exp_100_big by simp
  have "2 ^ 58 \<le> \<bar>exp (100::real)\<bar>" using big by simp
  from fl64_big[OF this] have "\<bar>exp (100::real)\<bar> / 2 \<le> \<bar>E\<bar>" by (simp add: E_def np_exp64_def)
  moreover have "0 \<le> E" by (simp add: E_def np_exp64_def fl64_nonneg)
  ultimately have E: "2 ^ 99 \<le> E" using big by simp
  have "2 powr 54 \<le> \<bar>exp (100::real)\<bar>" using big by simp
  from fl64_mult4[OF this] obtain M1 where M1: "E = 4 * real_of_int M1"
    by (auto simp: E_def np_exp64_def)
  have x: "2 ^ 98 \<le> \<bar>1 - E\<bar>" using E by simp
  then have "2 ^ 58 \<le> \<bar>1 - E\<bar>" by simp
  from fl64_big[OF this] have "\<bar>1 - E\<bar> / 2 \<le> \<bar>a\<bar>" by (simp add: a_def)
  with x have "2 powr 54 \<le> \<bar>a\<bar>" by simp
  from fl64_mult4[OF this] obtain M3 where M3: "v = 4 * real_of_int M3"
    by (auto simp: v_def)
  have "class_matrix64 2 E ! 0 = [E, v]"
    by (simp add: class_matrix64_def v_def a_def upt_rec numeral_2_eq_2)
  then have "sum_list (class_matrix64 2 E ! 0) - 1 = real_of_int (4 * (M1 + M3) - 1)"
    by (simp add: M1 M3)
  moreover have "1 \<le> \<bar>4 * (M1 + M3) - 1\<bar>" by presburger
  ultimately have "1 \<le> \<bar>sum_list (class_matrix64 2 E ! 0) - 1\<bar>"
    by (metis of_int_1_le_iff of_int_abs)
  with E show ?thesis by (simp add: E_def)
qed

subsection \<open>The rows\<close>

text \<open>
  Claim C6, as amended. In exact real arithmetic every row of every transition matrix and of
  every emission matrix the filter builds sums to 1 when \<open>nClasses \<ge> 2\<close>, whatever the window
  positions, \<open>nGens\<close> and the success rates are. Under float64 rounding, for
  \<open>2 \<le> nClasses \<le> 2\<^sup>5\<^sup>3\<close> and a diagonal value \<open>d\<close> in \<open>[0, 1]\<close>, the entries stored in a row sum, as
  real numbers, to 1 within \<open>10\<^sup>-\<^sup>9\<close>; the diagonal value is a success rate in \<open>[0, 1]\<close>, or a
  retention probability, which lies in \<open>[0, 1]\<close> when the window position is not below the
  reference and \<open>nGens > 0\<close>.
\<close>

theorem rows_sum_to_one:
  "(hmmFilter_models gm nGens nClasses snpLocations successRate W = Inr (a, b) \<and> 2 \<le> nClasses
      \<longrightarrow> (\<forall>x\<in>set a. \<forall>row\<in>set x. sum_list row = 1)
        \<and> (\<forall>x\<in>set b. \<forall>row\<in>set x. sum_list row = 1))
   \<and> (2 \<le> nClasses \<and> nClasses \<le> 2 ^ 53 \<and> 0 \<le> d \<and> d \<le> 1
      \<longrightarrow> (\<forall>row\<in>set (class_matrix64 nClasses d). \<bar>sum_list row - 1\<bar> \<le> 1 / 10 ^ 9))
   \<and> (oldPos \<le> newPos \<and> 0 < nGens
      \<longrightarrow> 0 \<le> retention64 newPos oldPos nGens \<and> retention64 newPos oldPos nGens \<le> 1)"
proof -
  have real_part: "hmmFilter_models gm nGens nClasses snpLocations successRate W = Inr (a, b)
      \<and> 2 \<le> nClasses
      \<longrightarrow> (\<forall>x\<in>set a. \<forall>row\<in>set x. sum_list row = 1)
        \<and> (\<forall>x\<in>set b. \<forall>row\<in>set x. sum_list row = 1)"
    using models_rows_sum[of gm nGens nClasses snpLocations successRate W a b] by blast
  have rows64: "2 \<le> nClasses \<and> nClasses \<le> 2 ^ 53 \<and> 0 \<le> d \<and> d \<le> 1
      \<longrightarrow> (\<forall>row\<in>set (class_matrix64 nClasses d). \<bar>sum_list row - 1\<bar> \<le> 1 / 10 ^ 9)"
    using class_matrix64_row_sum[of nClasses d] by blast
  have unit64: "oldPos \<le> newPos \<and> 0 < nGens
      \<longrightarrow> 0 \<le> retention64 newPos oldPos nGens \<and> retention64 newPos oldPos nGens \<le> 1"
    using retention64_unit[of oldPos newPos nGens] by simp
  show ?thesis by (intro conjI) (fact real_part rows64 unit64)+
qed

text \<open>
  The theorem at three SNP positions, three windows and two classes, at the diagonal value 1/4
  and at the window position 4 with reference 1.
\<close>

theorem rows_sum_to_one_witness:
  "hmmFilter_models [(0, 0), (10, 1), (20, 4)] 1 2 [0, 10, 20] [1 / 2, 1, 0] 3
     = Inr (transition_matrices 1 2 [0, 1, 4] 1, emission_matrices 2 [1 / 2, 1, 0])
   \<and> sum_list (transition_matrices 1 2 [0, 1, 4] 1 ! 2 ! 0) = 1
   \<and> sum_list (emission_matrices 2 [1 / 2, 1, 0] ! 0 ! 1) = 1
   \<and> \<bar>sum_list (class_matrix64 2 (1 / 4) ! 1) - 1\<bar> \<le> 1 / 10 ^ 9
   \<and> 0 \<le> retention64 4 1 1 \<and> retention64 4 1 1 \<le> 1"
proof -
  let ?a = "transition_matrices 1 2 [0, 1, 4] 1"
  let ?b = "emission_matrices 2 [1 / 2, 1, 0]"
  have m: "hmmFilter_models [(0, 0), (10, 1), (20, 4)] 1 2 [0, 10, 20] [1 / 2, 1, 0] 3
             = Inr (?a, ?b)"
    by (simp add: hmmFilter_models_def win_size_of_def pos2gm_def pos2gm_path_def pos2gm_try_def
          searchsorted_def binsearch_left.simps)
  note th = rows_sum_to_one[of "[(0, 0), (10, 1), (20, 4)]" 1 2 "[0, 10, 20]" "[1 / 2, 1, 0]" 3
              ?a ?b "1 / 4" 1 4]
  from th m have rows: "(\<forall>x\<in>set ?a. \<forall>row\<in>set x. sum_list row = 1)
        \<and> (\<forall>x\<in>set ?b. \<forall>row\<in>set x. sum_list row = 1)" by simp
  have "?a ! 2 \<in> set ?a"
    by (rule nth_mem) (simp add: transition_matrices_length window_positions_Suc0)
  moreover have "?a ! 2 ! 0 \<in> set (?a ! 2)"
    by (rule nth_mem)
       (simp add: transition_matrices_nth window_positions_Suc0 class_matrix_length)
  ultimately have ra: "sum_list (?a ! 2 ! 0) = 1" using rows by blast
  have "?b ! 0 \<in> set ?b" by (rule nth_mem) (simp add: emission_matrices_def)
  moreover have "?b ! 0 ! 1 \<in> set (?b ! 0)"
    by (rule nth_mem) (simp add: emission_matrices_def class_matrix_length)
  ultimately have rb: "sum_list (?b ! 0 ! 1) = 1" using rows by blast
  from th have "\<forall>row\<in>set (class_matrix64 2 (1 / 4)). \<bar>sum_list row - 1\<bar> \<le> 1 / 10 ^ 9"
    by simp
  moreover have "class_matrix64 2 (1 / 4) ! 1 \<in> set (class_matrix64 2 (1 / 4))"
    by (rule nth_mem) (simp add: class_matrix64_def)
  ultimately have rc: "\<bar>sum_list (class_matrix64 2 (1 / 4) ! 1) - 1\<bar> \<le> 1 / 10 ^ 9" by blast
  from th have rd: "0 \<le> retention64 4 1 1" and re: "retention64 4 1 1 \<le> 1" by simp_all
  show ?thesis by (intro conjI) (fact m ra rb rc rd re)+
qed

text \<open>
  Claim C6 as stated fails under float64 for a first window position far below the reference 0.
  The one-element sequence \<open>- 100\<close> does not decrease and \<open>nGens = 100 > 0\<close>; every operation of
  \<^verbatim>\<open>dM\<close> is exact and gives 100, so that \<open>e\<close> is \<^verbatim>\<open>np.exp(100.)\<close>, at least \<open>2\<^sup>9\<^sup>9\<close>. With two classes
  \<^verbatim>\<open>1.-e\<close> and \<open>e\<close> are then both multiples of 4, and the entries of a row sum to a number at
  distance 1 or more from 1.
\<close>

theorem far_below_row_sum_counterexample:
  "retention64 (- 100) 0 100 = np_exp64 100
   \<and> 2 ^ 99 \<le> np_exp64 100
   \<and> 1 \<le> \<bar>sum_list (class_matrix64 2 (np_exp64 100) ! 0) - 1\<bar>"
  using retention64_far_below far_below_row_sum by simp

section \<open>Properties of the calls\<close>

lemma sorted_le_last:
  fixes ys :: "'a :: linorder list"
  assumes "sorted ys" "y \<in> set ys"
  shows "y \<le> last ys"
proof -
  from assms(2) obtain k where k: "k < length ys" "ys ! k = y" by (auto simp: in_set_conv_nth)
  then have ne: "ys \<noteq> []" by auto
  have "ys ! k \<le> ys ! (length ys - 1)"
    using sorted_nth_mono[OF assms(1), of k "length ys - 1"] k by simp
  with k ne show ?thesis by (simp add: last_conv_nth)
qed

lemma last_filter_keep:
  "xs \<noteq> [] \<Longrightarrow> P (last xs) \<Longrightarrow> last (filter P xs) = last xs"
proof (induction xs)
  case Nil
  then show ?case by simp
next
  case (Cons x xs)
  show ?case
  proof (cases "xs = []")
    case True
    with Cons.prems show ?thesis by simp
  next
    case False
    then have l: "last (x # xs) = last xs" by simp
    with Cons.prems have P: "P (last xs)" by simp
    have "last xs \<in> set xs" using False by (rule last_in_set)
    with P have "\<exists>x\<in>set xs. P x" by blast
    then have "filter P xs \<noteq> []" by (simp add: filter_empty_conv)
    with Cons.IH[OF False P] l show ?thesis by simp
  qed
qed

lemma sorted_indices_last:
  assumes "length xs = length row" "set xs = {0..<length row}"
    and "sorted (map (\<lambda>i. row ! i) xs)" "row \<noteq> []"
  shows "last xs < length row \<and> (\<forall>s<length row. row ! s \<le> row ! last xs)"
proof -
  let ?f = "\<lambda>i. row ! i"
  have "0 < length xs" using assms(1,4) by simp
  then have ne: "xs \<noteq> []" by (simp only: length_greater_0_conv not_False_eq_True)
  then have "last xs \<in> set xs" by (rule last_in_set)
  then have k: "last xs < length row" by (simp add: assms(2))
  have mx: "\<forall>s<length row. row ! s \<le> row ! last xs"
  proof (intro allI impI)
    fix s assume "s < length row"
    then have "s \<in> set xs" by (simp add: assms(2))
    then have "?f s \<in> set (map ?f xs)" by (simp only: set_map image_eqI[of _ ?f s])
    from sorted_le_last[OF assms(3) this] show "row ! s \<le> row ! last xs"
      using ne by (simp add: last_map)
  qed
  from k mx show ?thesis by (rule conjI)
qed

lemma is_argsort_insertion: "is_argsort insertion_argsort"
  by (simp add: is_argsort_def insertion_argsort_def)

lemma argsort_last_max:
  assumes "row \<noteq> []" "is_argsort introsort"
  shows "last (argsort introsort row) < length row
       \<and> (\<forall>s<length row. row ! s \<le> row ! last (argsort introsort row))"
proof (cases "length row \<le> 16")
  case True
  have "is_argsort insertion_argsort" by (rule is_argsort_insertion)
  then have "length (insertion_argsort row) = length row"
    "set (insertion_argsort row) = {0..<length row}"
    "sorted (map (\<lambda>i. row ! i) (insertion_argsort row))"
    by (simp_all add: is_argsort_def)
  from sorted_indices_last[OF this assms(1)] True show ?thesis by (simp add: argsort_def)
next
  case False
  from assms(2) have "length (introsort row) = length row"
    "set (introsort row) = {0..<length row}"
    "sorted (map (\<lambda>i. row ! i) (introsort row))"
    by (simp_all add: is_argsort_def)
  from sorted_indices_last[OF this assms(1)] False show ?thesis by (simp add: argsort_def)
qed

lemma argsort_last_tie:
  assumes "row \<noteq> []" "length row \<le> 16"
  shows "\<forall>s<length row. row ! s = row ! last (argsort introsort row)
           \<longrightarrow> s \<le> last (argsort introsort row)"
proof -
  let ?f = "\<lambda>i. row ! i"
  let ?xs = "sort_key ?f [0..<length row]"
  let ?k = "last ?xs"
  have "0 < length row" using assms(1) by simp
  then have "0 < length ?xs" by (simp only: length_sort length_upt diff_zero)
  then have ne: "?xs \<noteq> []" by (simp only: length_greater_0_conv not_False_eq_True)
  have tie: "\<forall>s<length row. row ! s = row ! ?k \<longrightarrow> s \<le> ?k"
  proof (intro allI impI)
    fix s assume s: "s < length row" and eq: "row ! s = row ! ?k"
    let ?P = "\<lambda>y. ?f y = ?f ?k"
    have st: "filter ?P ?xs = filter ?P [0..<length row]" by (rule sort_key_stable)
    have "last (filter ?P ?xs) = ?k" using ne by (rule last_filter_keep) simp
    then have l: "last (filter ?P [0..<length row]) = ?k" by (simp only: st)
    have "sorted (filter ?P [0..<length row])" by (rule sorted_wrt_filter) simp
    moreover have "s \<in> set (filter ?P [0..<length row])" using s eq by simp
    ultimately have "s \<le> last (filter ?P [0..<length row])" by (rule sorted_le_last)
    then show "s \<le> ?k" by (simp only: l)
  qed
  have "argsort introsort row = ?xs" using assms(2) by (simp add: argsort_def insertion_argsort_def)
  with tie show ?thesis by simp
qed

lemma maxIdx_of_Inr:
  assumes "\<forall>row\<in>set pstate. row \<noteq> []"
  shows "maxIdx_of introsort pstate = Inr (map (\<lambda>row. last (argsort introsort row)) pstate)"
  using assms unfolding maxIdx_of_def
  by (induction pstate) (simp_all add: maxIdx_row_def)

text \<open>
  Claim C7, as amended. For every posterior table with at least one state column, the calls
  read off it are defined, one per window, and the call at each window is a state index whose
  posterior probability at that window is the largest. When several states tie for the largest
  value and the table has at most 16 states, the call is the highest of their indices: it is
  the last entry of the ascending \<^verbatim>\<open>argsort\<close>, which sorts such a row by insertion alone. On a row
  of more than 16 states the choice among tied states is that of numpy's sort, of which only
  \<open>is_argsort\<close> is assumed.
\<close>

theorem maxIdx_calls:
  assumes "\<forall>row\<in>set pstate. row \<noteq> []" and "is_argsort introsort"
  shows "\<exists>calls. maxIdx_of introsort pstate = Inr calls \<and> length calls = length pstate
       \<and> (\<forall>t<length pstate.
             calls ! t < length (pstate ! t)
           \<and> (\<forall>s<length (pstate ! t). pstate ! t ! s \<le> pstate ! t ! (calls ! t))
           \<and> (length (pstate ! t) \<le> 16 \<longrightarrow>
                (\<forall>s<length (pstate ! t).
                   pstate ! t ! s = pstate ! t ! (calls ! t) \<longrightarrow> s \<le> calls ! t)))"
proof (intro exI conjI allI impI)
  show "maxIdx_of introsort pstate = Inr (map (\<lambda>row. last (argsort introsort row)) pstate)"
    by (rule maxIdx_of_Inr[OF assms(1)])
next
  show "length (map (\<lambda>row. last (argsort introsort row)) pstate) = length pstate" by simp
next
  fix t assume t: "t < length pstate"
  then have ne: "pstate ! t \<noteq> []" using assms(1) by simp
  note r = argsort_last_max[OF ne assms(2)]
  show "map (\<lambda>row. last (argsort introsort row)) pstate ! t < length (pstate ! t)"
    using r t by simp
  fix s assume s: "s < length (pstate ! t)"
  show "pstate ! t ! s \<le> pstate ! t ! (map (\<lambda>row. last (argsort introsort row)) pstate ! t)"
    using r t s by simp
  assume "length (pstate ! t) \<le> 16"
  note q = argsort_last_tie[OF ne this, of introsort]
  assume "pstate ! t ! s = pstate ! t ! (map (\<lambda>row. last (argsort introsort row)) pstate ! t)"
  then show "s \<le> map (\<lambda>row. last (argsort introsort row)) pstate ! t" using q t s by simp
qed

text \<open>
  The theorem at a table of two windows and three states, the second window with a tie.
\<close>

theorem maxIdx_calls_witness:
  "\<exists>calls. maxIdx_of insertion_argsort [[1 / 5, 3 / 5, 1 / 5], [1 / 2, 1 / 2, 0]] = Inr calls
     \<and> length calls = 2 \<and> calls ! 0 = 1 \<and> calls ! 1 = 1"
proof -
  let ?P = "[[1 / 5, 3 / 5, 1 / 5], [1 / 2, 1 / 2, 0]] :: matrix"
  have h: "\<forall>row\<in>set ?P. row \<noteq> []" by simp
  from maxIdx_calls[OF h is_argsort_insertion] obtain calls where
    c: "maxIdx_of insertion_argsort ?P = Inr calls" and l: "length calls = length ?P" by blast
  have "maxIdx_of insertion_argsort ?P = Inr [1, 1]"
    by (simp add: maxIdx_of_def maxIdx_row_def argsort_def insertion_argsort_def upt_rec)
  with c have "calls = [1, 1]" by simp
  with c l show ?thesis by simp
qed

text \<open>
  Claim C7 as stated fails on ties: for the row \<open>1/2, 1/2\<close> the call is state 1, not the lowest
  tied index 0; for \<open>2/5, 2/5, 1/5\<close> it is state 1 as well. Both rows have fewer than 16 states,
  so that the sort on longer rows plays no part.
\<close>

theorem maxIdx_tie_counterexample:
  "maxIdx_of insertion_argsort [[1 / 2, 1 / 2]] = Inr [1]
   \<and> [1 / 2, 1 / 2 :: real] ! 0 = [1 / 2, 1 / 2] ! 1
   \<and> maxIdx_of insertion_argsort [[2 / 5, 2 / 5, 1 / 5]] = Inr [1]"
  by (simp add: maxIdx_of_def maxIdx_row_def argsort_def insertion_argsort_def upt_rec)

end
